theory Spec2Isabelle
  imports Main "HOL-Library.Sublist" "HOL-Library.Multiset"
begin

section \<open>Python values and exceptions\<close>

text \<open>
  The exceptions of the Python runtime that the modelled code can raise or catch.
  A function that can raise returns \<open>py_error + 'a\<close>, with \<open>Inl\<close> the exception.
\<close>

datatype py_error = ValueError | IndexError | KeyError | TypeError | AttributeError
  | ZeroDivisionError

text \<open>
  \<open>list.index(x)\<close>: the position of the first element equal to \<open>x\<close>;
  raises \<open>ValueError\<close> when there is none.
\<close>

fun list_index :: "'a list \<Rightarrow> 'a \<Rightarrow> py_error + nat" where
  "list_index [] x = Inl ValueError"
| "list_index (y # ys) x =
     (if y = x then Inr 0
      else (case list_index ys x of Inl e \<Rightarrow> Inl e | Inr i \<Rightarrow> Inr (Suc i)))"

section \<open>topology.py: the path check\<close>

text \<open>
  An identifier as the code passes it around is \<open>Optional[str]\<close>: \<open>None\<close> is
  Python's \<open>None\<close>. A topology table is a dict from terminus to the routes
  ending there; a route is a list of identifiers.
\<close>

type_synonym ident = "string option"
type_synonym 'a route = "'a list"
type_synonym 'a topology = "'a \<rightharpoonup> 'a route list"

text \<open>
  The loop of \<open>check_stop_on_path\<close> over \<open>possible_routes\<close>. The three
  \<open>route.index\<close> calls run in the order start, target, terminus inside one
  \<open>try\<close>; \<open>except ValueError: continue\<close> goes on with the next route, any
  other exception would leave the function.
\<close>

fun check_routes :: "'a route list \<Rightarrow> 'a \<Rightarrow> 'a \<Rightarrow> 'a \<Rightarrow> py_error + bool" where
  "check_routes [] start_id target_id terminus_id = Inr False"
| "check_routes (route # rest) start_id target_id terminus_id =
     (case list_index route start_id of
        Inl ValueError \<Rightarrow> check_routes rest start_id target_id terminus_id
      | Inl e \<Rightarrow> Inl e
      | Inr idx_start \<Rightarrow>
     (case list_index route target_id of
        Inl ValueError \<Rightarrow> check_routes rest start_id target_id terminus_id
      | Inl e \<Rightarrow> Inl e
      | Inr idx_target \<Rightarrow>
     (case list_index route terminus_id of
        Inl ValueError \<Rightarrow> check_routes rest start_id target_id terminus_id
      | Inl e \<Rightarrow> Inl e
      | Inr idx_end \<Rightarrow>
          if idx_start < idx_target \<and> idx_target \<le> idx_end then Inr True
          else check_routes rest start_id target_id terminus_id)))"

definition check_stop_on_path ::
  "'a topology \<Rightarrow> 'a \<Rightarrow> 'a \<Rightarrow> 'a \<Rightarrow> py_error + bool" where
  "check_stop_on_path topology start_id target_id terminus_id =
     (case topology terminus_id of
        None \<Rightarrow> Inr False
      | Some possible_routes \<Rightarrow> check_routes possible_routes start_id target_id terminus_id)"

text \<open>
  The position the specification calls \<open>index(x)\<close> of a route: \<open>i\<close> is the
  first position of \<open>x\<close> in \<open>r\<close>.
\<close>

definition first_at :: "'a list \<Rightarrow> 'a \<Rightarrow> nat \<Rightarrow> bool" where
  "first_at r x i = (i < length r \<and> r ! i = x \<and> x \<notin> set (take i r))"

text \<open>
  A route satisfies the specification's condition: it contains start, target and
  terminus, and their first positions are ordered
  \<open>index(start) < index(target) \<le> index(terminus)\<close>.
\<close>

definition route_serves :: "'a list \<Rightarrow> 'a \<Rightarrow> 'a \<Rightarrow> 'a \<Rightarrow> bool" where
  "route_serves r s t e =
     (s \<in> set r \<and> t \<in> set r \<and> e \<in> set r \<and>
      (\<exists>i j k. first_at r s i \<and> first_at r t j \<and> first_at r e k \<and> i < j \<and> j \<le> k))"

definition example_route :: "ident route" where
  "example_route = [Some ''100'', Some ''200'', Some ''300'', Some ''400'']"

definition example_table :: "ident topology" where
  "example_table = [Some ''400'' \<mapsto> [example_route]]"

section \<open>Strings and decoded JSON as Python sees them\<close>

text \<open>\<open>sub in s\<close> on strings: \<open>sub\<close> occurs in \<open>s\<close> as a contiguous piece.\<close>

fun contains :: "string \<Rightarrow> string \<Rightarrow> bool" where
  "contains sub [] = (sub = [])"
| "contains sub (c # cs) = (prefix sub (c # cs) \<or> contains sub cs)"

text \<open>
  \<open>s.split(sep)\<close> for a non-empty separator: the pieces between the occurrences of
  \<open>sep\<close>, found from the left and not overlapping. \<open>split_from sep acc s\<close> has
  read the characters \<open>acc\<close> (latest first) of the current piece. An empty separator
  raises \<open>ValueError\<close>.
\<close>

fun split_from :: "string \<Rightarrow> string \<Rightarrow> string \<Rightarrow> string list" where
  "split_from sep acc [] = [rev acc]"
| "split_from sep acc (c # cs) =
     (if prefix sep (c # cs) then rev acc # split_from sep [] (drop (length sep - 1) cs)
      else split_from sep (c # acc) cs)"

definition py_split :: "string \<Rightarrow> string \<Rightarrow> py_error + string list" where
  "py_split s sep = (if sep = [] then Inl ValueError else Inr (split_from sep [] s))"

text \<open>\<open>xs[i]\<close> on a list: a negative index counts from the end.\<close>

definition list_getitem :: "'a list \<Rightarrow> int \<Rightarrow> py_error + 'a" where
  "list_getitem xs i =
     (if 0 \<le> i \<and> i < int (length xs) then Inr (xs ! nat i)
      else if i < 0 \<and> - int (length xs) \<le> i then Inr (xs ! nat (int (length xs) + i))
      else Inl IndexError)"

text \<open>
  A decoded JSON body. An object is the list of the items of the dict, with distinct
  keys. A number is an integer: the code only tests a number for truth, where a float
  behaves as the integer 0 or 1.
\<close>

datatype json = JNull | JBool bool | JNum int | JStr string | JArr "json list"
  | JObj "(string \<times> json) list"

fun truthy :: "json \<Rightarrow> bool" where
  "truthy JNull = False"
| "truthy (JBool b) = b"
| "truthy (JNum n) = (n \<noteq> 0)"
| "truthy (JStr s) = (s \<noteq> [])"
| "truthy (JArr xs) = (xs \<noteq> [])"
| "truthy (JObj kvs) = (kvs \<noteq> [])"

text \<open>\<open>key in v\<close> for a string \<open>key\<close>.\<close>

fun py_in :: "string \<Rightarrow> json \<Rightarrow> py_error + bool" where
  "py_in key (JObj kvs) = Inr (key \<in> set (map fst kvs))"
| "py_in key (JArr xs) = Inr (JStr key \<in> set xs)"
| "py_in key (JStr s) = Inr (contains key s)"
| "py_in key v = Inl TypeError"

text \<open>\<open>v[key]\<close> for a string \<open>key\<close>.\<close>

fun py_getitem :: "json \<Rightarrow> string \<Rightarrow> py_error + json" where
  "py_getitem (JObj kvs) key = (case map_of kvs key of None \<Rightarrow> Inl KeyError | Some v \<Rightarrow> Inr v)"
| "py_getitem v key = Inl TypeError"

text \<open>The values \<open>for x in v\<close> runs through.\<close>

fun py_iter :: "json \<Rightarrow> py_error + json list" where
  "py_iter (JArr xs) = Inr xs"
| "py_iter (JObj kvs) = Inr (map (\<lambda>kv. JStr (fst kv)) kvs)"
| "py_iter (JStr s) = Inr (map (\<lambda>c. JStr [c]) s)"
| "py_iter v = Inl TypeError"

section \<open>Identifier normalisation\<close>

text \<open>
  \<open>LineTopology._extract_stif_id\<close> of topology.py, on a decoded JSON value.
  \<open>IndexError\<close> and \<open>AttributeError\<close> are caught and give \<open>None\<close>; on a
  value that is no container the test \<open>"IDFM:" in navitia_id\<close> raises
  \<open>TypeError\<close>, which is not caught; a list or a dict passes the test and has no
  \<open>split\<close>.
\<close>

definition stif_part :: "string \<Rightarrow> py_error + string" where
  "stif_part navitia_id =
     (if contains ''IDFM:'' navitia_id then
        (case py_split navitia_id ''IDFM:'' of
           Inl e \<Rightarrow> Inl e
         | Inr parts \<Rightarrow> list_getitem parts 1)
      else Inr navitia_id)"

definition second_to_last :: "string \<Rightarrow> py_error + string" where
  "second_to_last s =
     (case py_split s '':'' of Inl e \<Rightarrow> Inl e | Inr parts \<Rightarrow> list_getitem parts (- 2))"

fun topology_extract_stif_id :: "json \<Rightarrow> py_error + ident" where
  "topology_extract_stif_id (JStr navitia_id) =
     (case (case stif_part navitia_id of Inl e \<Rightarrow> Inl e | Inr part \<Rightarrow> second_to_last part) of
        Inl IndexError \<Rightarrow> Inr None
      | Inl AttributeError \<Rightarrow> Inr None
      | Inl e \<Rightarrow> Inl e
      | Inr code \<Rightarrow> Inr (Some code))"
| "topology_extract_stif_id (JArr xs) = Inr None"
| "topology_extract_stif_id (JObj kvs) = Inr None"
| "topology_extract_stif_id v = Inl TypeError"

text \<open>
  \<open>IDFMDataUpdateCoordinator._extract_stif_id\<close> of __init__.py, on an
  \<open>Optional[str]\<close>: \<open>None\<close> and the empty string give \<open>None\<close>, and on
  \<open>IndexError\<close> the identifier is returned as it came.
\<close>

definition coordinator_extract_stif_id :: "ident \<Rightarrow> ident" where
  "coordinator_extract_stif_id full_id =
     (case full_id of
        None \<Rightarrow> None
      | Some s \<Rightarrow>
          if s = [] then None
          else (case second_to_last s of Inl e \<Rightarrow> Some s | Inr code \<Rightarrow> Some code))"

text \<open>The composite identifier \<open>A:B:C:CODE:\<close>.\<close>

definition composite :: "string \<Rightarrow> string \<Rightarrow> string \<Rightarrow> string \<Rightarrow> string" where
  "composite a b c code = a @ '':'' @ b @ '':'' @ c @ '':'' @ code @ '':''"

text \<open>
  \<open>seg\<close> is the second-to-last colon-delimited segment of \<open>s\<close>: \<open>s\<close> reads
  \<open>q seg : tail\<close> where \<open>seg\<close> and \<open>tail\<close> have no colon and \<open>q\<close> is empty
  or ends with a colon.
\<close>

definition penultimate :: "string \<Rightarrow> string \<Rightarrow> bool" where
  "penultimate s seg =
     (\<exists>q tail. s = q @ seg @ '':'' @ tail \<and> CHR '':'' \<notin> set seg \<and> CHR '':'' \<notin> set tail
        \<and> (q = [] \<or> last q = CHR '':''))"

text \<open>
  \<open>part\<close> is the piece of \<open>s\<close> that lies after the authority prefix: \<open>s\<close>
  itself when \<open>IDFM:\<close> does not occur in it, and otherwise what stands between the
  first \<open>IDFM:\<close> and the next one, or the end when there is no next one.
\<close>

definition after_authority :: "string \<Rightarrow> string \<Rightarrow> bool" where
  "after_authority s part =
     ((\<not> contains ''IDFM:'' s \<and> part = s)
      \<or> (\<exists>p. \<not> contains ''IDFM:'' (p @ ''IDFM'')
            \<and> ((s = p @ ''IDFM:'' @ part \<and> \<not> contains ''IDFM:'' part)
               \<or> (\<exists>t. s = p @ ''IDFM:'' @ part @ ''IDFM:'' @ t
                     \<and> \<not> contains ''IDFM:'' (part @ ''IDFM'')))))"

text \<open>A table that holds real identifiers only: no route stored in it contains \<open>None\<close>.\<close>

definition real_routes :: "ident topology \<Rightarrow> bool" where
  "real_routes topology =
     (\<forall>k routes. topology k = Some routes \<longrightarrow> (\<forall>r \<in> set routes. None \<notin> set r))"

section \<open>topology.py: fetching and caching the table\<close>

text \<open>
  The two URLs the resolver requests, by what is put into the template: the routes of
  a line (\<open>.../lines/line:IDFM:{line_id}/routes\<close>) and the stop points of a route
  (\<open>.../routes/{route_id}/stop_points\<close>, where \<open>route_id\<close> is whatever the
  routes body holds under \<open>"id"\<close>).
\<close>

datatype url = LineRoutes string | RouteStopPoints json

text \<open>
  What \<open>session.get\<close> does: it raises, or it gives a response with a status and a
  body that \<open>response.json()\<close> decodes or fails to decode (\<open>None\<close>). The data
  source is a function of the URL and the world.
\<close>

datatype http_result = TransportError | Response nat "json option"

type_synonym 'w http = "url \<Rightarrow> 'w \<Rightarrow> http_result \<times> 'w"

definition navitia_request :: "'w http \<Rightarrow> url \<Rightarrow> 'w \<Rightarrow> json \<times> 'w" where
  "navitia_request http u w =
     (case http u w of
        (TransportError, w') \<Rightarrow> (JNull, w')
      | (Response status body, w') \<Rightarrow>
          if status \<noteq> 200 then (JNull, w')
          else (case body of None \<Rightarrow> (JNull, w') | Some j \<Rightarrow> (j, w')))"

record LineTopology =
  topology_cache :: "string \<rightharpoonup> ident topology"

text \<open>The inner loop over \<open>points_data["stop_points"]\<close>; \<open>if stop_id\<close> drops
  \<open>None\<close> and the empty string.\<close>

fun collect_stops :: "json list \<Rightarrow> ident list \<Rightarrow> py_error + ident list" where
  "collect_stops [] ordered_stops = Inr ordered_stops"
| "collect_stops (sp # sps) ordered_stops =
     (case py_getitem sp ''id'' of
        Inl e \<Rightarrow> Inl e
      | Inr v \<Rightarrow>
          (case topology_extract_stif_id v of
             Inl e \<Rightarrow> Inl e
           | Inr stop_id \<Rightarrow>
               collect_stops sps
                 (if stop_id \<noteq> None \<and> stop_id \<noteq> Some [] then ordered_stops @ [stop_id]
                  else ordered_stops)))"

text \<open>\<open>topology[terminus].append(ordered_stops)\<close>, with the empty list put first
  under a new terminus.\<close>

definition add_route :: "ident topology \<Rightarrow> ident list \<Rightarrow> ident topology" where
  "add_route topology ordered_stops =
     (let terminus = last ordered_stops
      in topology(terminus \<mapsto>
           (case topology terminus of None \<Rightarrow> [] | Some rs \<Rightarrow> rs) @ [ordered_stops]))"

text \<open>The loop over \<open>routes_data["routes"]\<close>.\<close>

fun routes_loop ::
  "'w http \<Rightarrow> json list \<Rightarrow> ident topology \<Rightarrow> 'w \<Rightarrow> (py_error + ident topology) \<times> 'w" where
  "routes_loop http [] topology w = (Inr topology, w)"
| "routes_loop http (route # routes) topology w =
     (case py_getitem route ''id'' of
        Inl e \<Rightarrow> (Inl e, w)
      | Inr route_id \<Rightarrow>
     (case navitia_request http (RouteStopPoints route_id) w of
        (points_data, w') \<Rightarrow>
     (case (if truthy points_data then py_in ''stop_points'' points_data else Inr False) of
        Inl e \<Rightarrow> (Inl e, w')
      | Inr False \<Rightarrow> routes_loop http routes topology w'
      | Inr True \<Rightarrow>
     (case py_getitem points_data ''stop_points'' of
        Inl e \<Rightarrow> (Inl e, w')
      | Inr stop_points \<Rightarrow>
     (case py_iter stop_points of
        Inl e \<Rightarrow> (Inl e, w')
      | Inr sps \<Rightarrow>
     (case collect_stops sps [] of
        Inl e \<Rightarrow> (Inl e, w')
      | Inr ordered_stops \<Rightarrow>
          routes_loop http routes
            (if ordered_stops \<noteq> [] then add_route topology ordered_stops else topology)
            w'))))))"

text \<open>
  \<open>get_ordered_stops\<close>: the result or the exception, the resolver after the call,
  and the world after the call.
\<close>

definition get_ordered_stops ::
  "'w http \<Rightarrow> LineTopology \<Rightarrow> string \<Rightarrow> 'w
     \<Rightarrow> (py_error + ident topology) \<times> LineTopology \<times> 'w" where
  "get_ordered_stops http self line_id w =
     (case topology_cache self line_id of
        Some cached \<Rightarrow> (Inr cached, self, w)
      | None \<Rightarrow>
     (case navitia_request http (LineRoutes line_id) w of
        (routes_data, w1) \<Rightarrow>
     (case (if \<not> truthy routes_data then Inr True
            else (case py_in ''routes'' routes_data of Inl e \<Rightarrow> Inl e | Inr b \<Rightarrow> Inr (\<not> b))) of
        Inl e \<Rightarrow> (Inl e, self, w1)
      | Inr True \<Rightarrow> (Inr Map.empty, self, w1)
      | Inr False \<Rightarrow>
     (case py_getitem routes_data ''routes'' of
        Inl e \<Rightarrow> (Inl e, self, w1)
      | Inr routes \<Rightarrow>
     (case py_iter routes of
        Inl e \<Rightarrow> (Inl e, self, w1)
      | Inr route_list \<Rightarrow>
     (case routes_loop http route_list Map.empty w1 of
        (Inl e, w2) \<Rightarrow> (Inl e, self, w2)
      | (Inr topology, w2) \<Rightarrow>
          (Inr topology,
           self\<lparr>topology_cache := (topology_cache self)(line_id \<mapsto> topology)\<rparr>, w2)))))))"

text \<open>Observing the requests: the data source with a log of the URLs asked for.\<close>

definition logged_http :: "'w http \<Rightarrow> ('w \<times> url list) http" where
  "logged_http http u wl = (case http u (fst wl) of (res, w') \<Rightarrow> (res, (w', snd wl @ [u])))"

text \<open>
  A sequence of \<open>get_ordered_stops\<close> calls on the same resolver, one per line
  identifier of the list, whatever each call returns or raises.
\<close>

fun run_calls :: "'w http \<Rightarrow> LineTopology \<Rightarrow> string list \<Rightarrow> 'w \<Rightarrow> LineTopology \<times> 'w" where
  "run_calls http self [] w = (self, w)"
| "run_calls http self (l # ls) w =
     (case get_ordered_stops http self l w of (res, self', w') \<Rightarrow> run_calls http self' ls w')"

text \<open>
  Data sources for the examples; the world counts the requests. One is out of
  service, one serves a line with the single route 100, 200, 300, 400.
\<close>

definition failing_http :: "nat http" where
  "failing_http u w = (Response 503 None, w + 1)"

definition example_http :: "nat http" where
  "example_http u w =
     (case u of
        LineRoutes l \<Rightarrow>
          (Response 200 (Some (JObj [(''routes'', JArr [JObj [(''id'', JStr ''route:1'')]])])),
           w + 1)
      | RouteStopPoints r \<Rightarrow>
          (Response 200 (Some (JObj [(''stop_points'',
             JArr [JObj [(''id'', JStr ''STIF:StopPoint:Q:100:'')],
                   JObj [(''id'', JStr ''STIF:StopPoint:Q:200:'')],
                   JObj [(''id'', JStr ''STIF:StopPoint:Q:300:'')],
                   JObj [(''id'', JStr ''STIF:StopPoint:Q:400:'')]])])),
           w + 1))"

definition empty_resolver :: LineTopology where
  "empty_resolver = \<lparr>topology_cache = Map.empty\<rparr>"

definition example_resolver :: LineTopology where
  "example_resolver = \<lparr>topology_cache = [''C01742'' \<mapsto> example_table]\<rparr>"

section \<open>api_wrapper.py: the credential rotator\<close>

text \<open>
  What awaiting a call can raise: the library's \<open>RequestError(code, message)\<close>, an
  exception of the Python runtime, or any other exception. A call returns
  \<open>'e exn + 'r\<close>.
\<close>

datatype 'e exn = RequestError int string | PyError py_error | OtherException 'e

text \<open>
  \<open>MultiKeyIDFMApi\<close>. The session and the timeout are shared by all clients and
  never read by the rotation, so the state is the token list, the client list and the
  index of the active one. The class \<open>IDFMApi\<close> belongs to the package
  \<open>idfm_api\<close>: the constructor call \<open>IDFMApi(session, token.strip(), timeout)\<close>
  is the parameter \<open>mk_client\<close> of \<open>init\<close>, and a client's remote methods are a
  parameter of the operations below.
\<close>

record 'c MultiKeyIDFMApi =
  tokens :: "string list"
  clients :: "'c list"
  current_token_index :: nat

definition init :: "(string \<Rightarrow> 'c) \<Rightarrow> string list \<Rightarrow> 'c MultiKeyIDFMApi" where
  "init mk_client toks =
     \<lparr>tokens = toks, clients = map mk_client toks, current_token_index = 0\<rparr>"

text \<open>\<open>self._clients[self._current_token_index]\<close>; the index is never negative.\<close>

definition current_client :: "'c MultiKeyIDFMApi \<Rightarrow> py_error + 'c" where
  "current_client s =
     (if current_token_index s < length (clients s)
      then Inr (clients s ! current_token_index s) else Inl IndexError)"

text \<open>\<open>(i + 1) % len(self._tokens)\<close> raises \<open>ZeroDivisionError\<close> on an empty pool.\<close>

definition rotate_key :: "'c MultiKeyIDFMApi \<Rightarrow> py_error + 'c MultiKeyIDFMApi" where
  "rotate_key s =
     (if length (tokens s) = 0 then Inl ZeroDivisionError
      else Inr (s\<lparr>current_token_index :=
                  (current_token_index s + 1) mod length (tokens s)\<rparr>))"

text \<open>
  The remote call takes the client and the state of the world outside the process
  (the upstream service, its rate limits, the clock) and returns its result with the
  world after the call.
\<close>

type_synonym ('c, 'w, 'e, 'r) remote = "'c \<Rightarrow> 'w \<Rightarrow> ('e exn + 'r) \<times> 'w"

text \<open>
  The \<open>while attempts < max_attempts\<close> loop of \<open>_call_with_retry\<close>. An exception
  that is no \<open>RequestError\<close> is raised again by \<open>except Exception\<close>; so is one
  raised while reading \<open>self._current_client\<close> inside the \<open>try\<close>. An exception
  of \<open>_rotate_key\<close> is raised inside the handler and leaves the function.
\<close>

function call_with_retry_loop ::
  "('c, 'w, 'e, 'r) remote \<Rightarrow> nat \<Rightarrow> nat \<Rightarrow> 'c MultiKeyIDFMApi \<Rightarrow> 'w
     \<Rightarrow> ('e exn + 'r) \<times> 'c MultiKeyIDFMApi \<times> 'w" where
  "call_with_retry_loop func attempts max_attempts s w =
     (if attempts < max_attempts then
        (case current_client s of
           Inl e \<Rightarrow> (Inl (PyError e), s, w)
         | Inr client \<Rightarrow>
            (case func client w of
               (Inr r, w') \<Rightarrow> (Inr r, s, w')
             | (Inl (RequestError code msg), w') \<Rightarrow>
                 if code = 429 then
                   (case rotate_key s of
                      Inl e \<Rightarrow> (Inl (PyError e), s, w')
                    | Inr s' \<Rightarrow> call_with_retry_loop func (attempts + 1) max_attempts s' w')
                 else (Inl (RequestError code msg), s, w')
             | (Inl e, w') \<Rightarrow> (Inl e, s, w')))
      else (Inl (RequestError 429 ''All API keys are rate limited.''), s, w))"
  by pat_completeness auto
termination
  by (relation "measure (\<lambda>(func, attempts, max_attempts, s, w). max_attempts - attempts)")
    auto

declare call_with_retry_loop.simps [simp del]

definition call_with_retry ::
  "('c, 'w, 'e, 'r) remote \<Rightarrow> 'c MultiKeyIDFMApi \<Rightarrow> 'w
     \<Rightarrow> ('e exn + 'r) \<times> 'c MultiKeyIDFMApi \<times> 'w" where
  "call_with_retry func s w = call_with_retry_loop func 0 (length (tokens s)) s w"

text \<open>
  The requests a client answers, one constructor per method of \<open>IDFMApi\<close> that the
  wrapper forwards, with the method's arguments. The transport type is opaque here.
\<close>

datatype 't request =
    GetLines "'t option"
  | GetStops string
  | GetTraffic string "string option" "string option" "string option"
  | GetDestinations string "string option" "string option"
  | GetDirections string "string option"
  | GetInfos string
  | GetLineReports string bool

type_synonym ('c, 't, 'w, 'e, 'r) api = "'c \<Rightarrow> 't request \<Rightarrow> 'w \<Rightarrow> ('e exn + 'r) \<times> 'w"

definition on_current_client ::
  "('c, 'w, 'e, 'r) remote \<Rightarrow> 'c MultiKeyIDFMApi \<Rightarrow> 'w
     \<Rightarrow> ('e exn + 'r) \<times> 'c MultiKeyIDFMApi \<times> 'w" where
  "on_current_client func s w =
     (case current_client s of
        Inl e \<Rightarrow> (Inl (PyError e), s, w)
      | Inr client \<Rightarrow> (case func client w of (res, w') \<Rightarrow> (res, s, w')))"

definition get_lines ::
  "('c, 't, 'w, 'e, 'r) api \<Rightarrow> 'c MultiKeyIDFMApi \<Rightarrow> 't option \<Rightarrow> 'w
     \<Rightarrow> ('e exn + 'r) \<times> 'c MultiKeyIDFMApi \<times> 'w" where
  "get_lines api s transport w =
     on_current_client (\<lambda>client. api client (GetLines transport)) s w"

definition get_stops ::
  "('c, 't, 'w, 'e, 'r) api \<Rightarrow> 'c MultiKeyIDFMApi \<Rightarrow> string \<Rightarrow> 'w
     \<Rightarrow> ('e exn + 'r) \<times> 'c MultiKeyIDFMApi \<times> 'w" where
  "get_stops api s line_id w =
     on_current_client (\<lambda>client. api client (GetStops line_id)) s w"

definition get_traffic ::
  "('c, 't, 'w, 'e, 'r) api \<Rightarrow> 'c MultiKeyIDFMApi \<Rightarrow> string \<Rightarrow> string option
     \<Rightarrow> string option \<Rightarrow> string option \<Rightarrow> 'w
     \<Rightarrow> ('e exn + 'r) \<times> 'c MultiKeyIDFMApi \<times> 'w" where
  "get_traffic api s stop_id destination_name direction_name line_id w =
     call_with_retry
       (\<lambda>client. api client (GetTraffic stop_id destination_name direction_name line_id)) s w"

definition get_destinations ::
  "('c, 't, 'w, 'e, 'r) api \<Rightarrow> 'c MultiKeyIDFMApi \<Rightarrow> string \<Rightarrow> string option
     \<Rightarrow> string option \<Rightarrow> 'w \<Rightarrow> ('e exn + 'r) \<times> 'c MultiKeyIDFMApi \<times> 'w" where
  "get_destinations api s stop_id direction_name line_id w =
     call_with_retry (\<lambda>client. api client (GetDestinations stop_id direction_name line_id)) s w"

definition get_directions ::
  "('c, 't, 'w, 'e, 'r) api \<Rightarrow> 'c MultiKeyIDFMApi \<Rightarrow> string \<Rightarrow> string option \<Rightarrow> 'w
     \<Rightarrow> ('e exn + 'r) \<times> 'c MultiKeyIDFMApi \<times> 'w" where
  "get_directions api s stop_id line_id w =
     call_with_retry (\<lambda>client. api client (GetDirections stop_id line_id)) s w"

definition get_infos ::
  "('c, 't, 'w, 'e, 'r) api \<Rightarrow> 'c MultiKeyIDFMApi \<Rightarrow> string \<Rightarrow> 'w
     \<Rightarrow> ('e exn + 'r) \<times> 'c MultiKeyIDFMApi \<times> 'w" where
  "get_infos api s line_id w =
     call_with_retry (\<lambda>client. api client (GetInfos line_id)) s w"

definition get_line_reports ::
  "('c, 't, 'w, 'e, 'r) api \<Rightarrow> 'c MultiKeyIDFMApi \<Rightarrow> string \<Rightarrow> bool \<Rightarrow> 'w
     \<Rightarrow> ('e exn + 'r) \<times> 'c MultiKeyIDFMApi \<times> 'w" where
  "get_line_reports api s line_id exclude_elevator w =
     call_with_retry (\<lambda>client. api client (GetLineReports line_id exclude_elevator)) s w"

text \<open>
  Observing the calls: \<open>logged func\<close> behaves as \<open>func\<close> and appends the client it
  was called on to a log carried beside the world. The length of the log is the
  number of underlying calls made.
\<close>

definition logged :: "('c, 'w, 'e, 'r) remote \<Rightarrow> ('c, 'w \<times> 'c list, 'e, 'r) remote" where
  "logged func client wl =
     (case func client (fst wl) of (res, w') \<Rightarrow> (res, (w', snd wl @ [client])))"

text \<open>
  The pool as \<open>__init__\<close> builds it and rotation keeps it: as many clients as
  tokens, and the index inside the pool unless the pool is empty.
\<close>

definition pool_ok :: "'c MultiKeyIDFMApi \<Rightarrow> bool" where
  "pool_ok s = (length (clients s) = length (tokens s)
     \<and> (tokens s = [] \<or> current_token_index s < length (tokens s)))"

text \<open>The call fails with code 429 on every client, in every state of the world.\<close>

definition always_rate_limited :: "('c, 'w, 'e, 'r) remote \<Rightarrow> bool" where
  "always_rate_limited func = (\<forall>client w. \<exists>msg. fst (func client w) = Inl (RequestError 429 msg))"

text \<open>
  The indices a rotation visits in \<open>n\<close> steps from the active one, and the clients
  at these indices.
\<close>

definition rotation_indices :: "'c MultiKeyIDFMApi \<Rightarrow> nat \<Rightarrow> nat list" where
  "rotation_indices s n =
     map (\<lambda>k. (current_token_index s + k) mod length (tokens s)) [0..<n]"

definition rotation_from :: "'c MultiKeyIDFMApi \<Rightarrow> nat \<Rightarrow> 'c list" where
  "rotation_from s n = map (\<lambda>j. clients s ! j) (rotation_indices s n)"

definition logged_api ::
  "('c, 't, 'w, 'e, 'r) api \<Rightarrow> ('c, 't, 'w \<times> 'c list, 'e, 'r) api" where
  "logged_api api client req wl = logged (\<lambda>c. api c req) client wl"

text \<open>
  The wrapper operation that serves a request: the method of \<open>MultiKeyIDFMApi\<close>
  with the name of the request.
\<close>

definition wrapper_call ::
  "('c, 't, 'w, 'e, 'r) api \<Rightarrow> 'c MultiKeyIDFMApi \<Rightarrow> 't request \<Rightarrow> 'w
     \<Rightarrow> ('e exn + 'r) \<times> 'c MultiKeyIDFMApi \<times> 'w" where
  "wrapper_call api s req w =
     (case req of
        GetLines transport \<Rightarrow> get_lines api s transport w
      | GetStops line_id \<Rightarrow> get_stops api s line_id w
      | GetTraffic stop_id destination_name direction_name line_id \<Rightarrow>
          get_traffic api s stop_id destination_name direction_name line_id w
      | GetDestinations stop_id direction_name line_id \<Rightarrow>
          get_destinations api s stop_id direction_name line_id w
      | GetDirections stop_id line_id \<Rightarrow> get_directions api s stop_id line_id w
      | GetInfos line_id \<Rightarrow> get_infos api s line_id w
      | GetLineReports line_id exclude_elevator \<Rightarrow>
          get_line_reports api s line_id exclude_elevator w)"

fun unretried :: "'t request \<Rightarrow> bool" where
  "unretried (GetLines transport) = True"
| "unretried (GetStops line_id) = True"
| "unretried req = False"

text \<open>
  A pool of two credentials whose clients are named by their tokens, and remote calls
  for it. The world counts the requests the upstream service has received.
\<close>

definition example_pool :: "string MultiKeyIDFMApi" where
  "example_pool = init (\<lambda>token. token) [''key0'', ''key1'']"

definition all_limited :: "(string, nat, unit, string) remote" where
  "all_limited client w = (Inl (RequestError 429 ''Too Many Requests''), w + 1)"

definition first_limited :: "(string, nat, unit, string) remote" where
  "first_limited client w =
     (if client = ''key0'' then (Inl (RequestError 429 ''Too Many Requests''), w + 1)
      else (Inr ''departures'', w + 1))"

definition server_error :: "(string, nat, unit, string) remote" where
  "server_error client w = (Inl (RequestError 500 ''Internal Server Error''), w + 1)"

definition example_api :: "(string, unit, nat, unit, string) api" where
  "example_api client req w = first_limited client w"

section \<open>__init__.py: the refresh of the coordinator\<close>

text \<open>
  \<open>TransportType\<close> and \<open>TrafficData\<close> come from the \<open>idfm_api\<close>
  package. Of the transport types the refresh names
  three; every other value is \<open>OtherTransport\<close>. Of a departure it reads the
  schedule, an aware \<open>datetime\<close> or \<open>None\<close>, taken here as the instant on an
  integer time line, and the destination identifier; the other fields are the
  record's extension.
\<close>

datatype TransportType = TRAIN | METRO | TRAM | OtherTransport string

record TrafficData =
  schedule :: "int option"
  destination_id :: ident

record IDFMDataUpdateCoordinator =
  transport_type :: TransportType
  line_id :: string
  stop_area_id :: ident
  direction :: ident
  destination :: ident
  exclude_elevators :: bool
  stop_id_simple :: ident
  destination_simple :: ident
  topology :: LineTopology

text \<open>The truth value of an \<open>Optional[str]\<close>: \<open>None\<close> and the empty string are false.\<close>

definition ident_truthy :: "ident \<Rightarrow> bool" where
  "ident_truthy x = (x \<noteq> None \<and> x \<noteq> Some [])"

definition coordinator_init ::
  "TransportType \<Rightarrow> string \<Rightarrow> ident \<Rightarrow> ident \<Rightarrow> ident \<Rightarrow> bool \<Rightarrow> IDFMDataUpdateCoordinator" where
  "coordinator_init transport line stop_area dir dest excl =
     \<lparr>transport_type = transport, line_id = line, stop_area_id = stop_area,
      direction = dir, destination = dest, exclude_elevators = excl,
      stop_id_simple = coordinator_extract_stif_id stop_area,
      destination_simple = (if ident_truthy dest then coordinator_extract_stif_id dest else None),
      topology = \<lparr>topology_cache = Map.empty\<rparr>\<rparr>"

text \<open>
  What the refresh calls outside the process: the two methods of the client
  (\<open>self.api\<close>), the topology data source, and the two clocks, \<open>datetime.now()\<close>
  as hour and minute of the local time and \<open>datetime.utcnow()\<close> as an instant.
\<close>

record ('w, 'e, 'm, 'i) environment =
  api_get_traffic ::
    "ident \<Rightarrow> ident \<Rightarrow> ident \<Rightarrow> string \<Rightarrow> 'w \<Rightarrow> ('e exn + 'm TrafficData_scheme list) \<times> 'w"
  api_get_line_reports :: "string \<Rightarrow> bool \<Rightarrow> 'w \<Rightarrow> ('e exn + 'i) \<times> 'w"
  http_get :: "'w http"
  now :: "'w \<Rightarrow> nat \<times> nat"
  utcnow :: "'w \<Rightarrow> int"

datatype update_error = UpdateFailed

record ('m, 'i) update_data =
  DATA_TRAFFIC :: "'m TrafficData_scheme list"
  DATA_INFO :: 'i

text \<open>The condition under which the refresh fetches at all.\<close>

definition update_due :: "TransportType \<Rightarrow> nat \<times> nat \<Rightarrow> bool" where
  "update_due transport d =
     (case d of (hour, minute) \<Rightarrow>
        transport \<notin> set [TRAIN, METRO, TRAM]
        \<or> ((hour = 1 \<and> minute < 30) \<or> (hour < 1 \<or> hour > 5) \<or> (hour = 5 \<and> minute \<ge> 30)))"

definition use_topology :: "IDFMDataUpdateCoordinator \<Rightarrow> bool" where
  "use_topology self =
     (ident_truthy (destination self) \<and> contains ''STIF:'' (the (destination self)))"

definition req_destination :: "IDFMDataUpdateCoordinator \<Rightarrow> ident" where
  "req_destination self = (if use_topology self then None else destination self)"

definition req_direction :: "IDFMDataUpdateCoordinator \<Rightarrow> ident" where
  "req_direction self = (if use_topology self then None else direction self)"

text \<open>The loop \<open>for train in tr\<close> of the topology filtering, with \<open>filtered_tr\<close>.\<close>

fun filter_trains ::
  "ident topology \<Rightarrow> IDFMDataUpdateCoordinator \<Rightarrow> 'm TrafficData_scheme list
     \<Rightarrow> 'm TrafficData_scheme list \<Rightarrow> py_error + 'm TrafficData_scheme list" where
  "filter_trains topo_data self [] filtered_tr = Inr filtered_tr"
| "filter_trains topo_data self (train # rest) filtered_tr =
     (let terminus_id_simple = coordinator_extract_stif_id (destination_id train)
      in case check_stop_on_path topo_data (stop_id_simple self) (destination_simple self)
                terminus_id_simple of
           Inl e \<Rightarrow> Inl e
         | Inr on_path \<Rightarrow>
             filter_trains topo_data self rest
               (if on_path then filtered_tr @ [train] else filtered_tr))"

text \<open>The block under \<open># Topology filtering\<close>: the departures that go on, the
  resolver and the world after it.\<close>

definition topology_filtering ::
  "('w, 'e, 'm, 'i) environment \<Rightarrow> IDFMDataUpdateCoordinator \<Rightarrow> 'm TrafficData_scheme list
     \<Rightarrow> 'w \<Rightarrow> (py_error + 'm TrafficData_scheme list) \<times> LineTopology \<times> 'w" where
  "topology_filtering env self tr w =
     (if use_topology self \<and> ident_truthy (destination_simple self) then
        (case get_ordered_stops (http_get env) (topology self) (line_id self) w of
           (Inl e, topology', w') \<Rightarrow> (Inl e, topology', w')
         | (Inr topo_data, topology', w') \<Rightarrow>
             (filter_trains topo_data self tr [], topology', w'))
      else (Inr tr, topology self, w))"

text \<open>The block under \<open># Filter past schedules\<close>; \<open>sorted\<close> is stable, as
  \<open>sort_key\<close> is.\<close>

definition sorted_tr :: "int \<Rightarrow> 'm TrafficData_scheme list \<Rightarrow> 'm TrafficData_scheme list" where
  "sorted_tr utcd tr =
     sort_key (\<lambda>x. the (schedule x))
       (filter (\<lambda>x. schedule x \<noteq> None \<and> the (schedule x) > utcd) tr)"

text \<open>
  \<open>_async_update_data\<close>. Every exception becomes \<open>UpdateFailed\<close>; outside the
  hours in which rail lines are refreshed the function ends without a value, which is
  \<open>None\<close>.
\<close>

definition async_update_data ::
  "('w, 'e, 'm, 'i) environment \<Rightarrow> IDFMDataUpdateCoordinator \<Rightarrow> 'w
     \<Rightarrow> (update_error + ('m, 'i) update_data option) \<times> IDFMDataUpdateCoordinator \<times> 'w" where
  "async_update_data env self w =
     (if update_due (transport_type self) (now env w) then
        (case api_get_traffic env (stop_area_id self) (req_destination self)
                (req_direction self) (line_id self) w of
           (Inl e, w1) \<Rightarrow> (Inl UpdateFailed, self, w1)
         | (Inr tr, w1) \<Rightarrow>
        (case topology_filtering env self tr w1 of
           (Inl e, topology', w2) \<Rightarrow> (Inl UpdateFailed, self\<lparr>topology := topology'\<rparr>, w2)
         | (Inr tr', topology', w2) \<Rightarrow>
        (case api_get_line_reports env (line_id self) (exclude_elevators self) w2 of
           (Inl e, w3) \<Rightarrow> (Inl UpdateFailed, self\<lparr>topology := topology'\<rparr>, w3)
         | (Inr inf', w3) \<Rightarrow>
             (Inr (Some \<lparr>DATA_TRAFFIC = sorted_tr (utcnow env w2) tr', DATA_INFO = inf'\<rparr>),
              self\<lparr>topology := topology'\<rparr>, w3))))
      else (Inr None, self, w))"

text \<open>
  A departure is upcoming at an instant when it has a schedule strictly after it; a
  departure is served when the path check from the configured stop to the configured
  destination towards its terminus is true.
\<close>

definition upcoming :: "int \<Rightarrow> 'm TrafficData_scheme \<Rightarrow> bool" where
  "upcoming utcd x = (case schedule x of None \<Rightarrow> False | Some t \<Rightarrow> utcd < t)"

definition served :: "ident topology \<Rightarrow> IDFMDataUpdateCoordinator \<Rightarrow> 'm TrafficData_scheme \<Rightarrow> bool" where
  "served topo_data self train =
     (check_stop_on_path topo_data (stop_id_simple self) (destination_simple self)
        (coordinator_extract_stif_id (destination_id train)) = Inr True)"

text \<open>
  A refresh for the examples: a bus stop 200 with the destination stop 300, five
  departures fetched, the clock at 100.
\<close>

definition departure :: "int option \<Rightarrow> string \<Rightarrow> TrafficData" where
  "departure t dest = \<lparr>schedule = t, destination_id = Some dest\<rparr>"

definition example_departures :: "TrafficData list" where
  "example_departures =
     [departure (Some 50) ''STIF:StopPoint:Q:400:'',
      departure (Some 200) ''STIF:StopPoint:Q:400:'',
      departure None ''STIF:StopPoint:Q:400:'',
      departure (Some 120) ''STIF:StopPoint:Q:250:'',
      departure (Some 150) ''STIF:StopPoint:Q:400:'']"

definition example_environment :: "(nat, unit, unit, string list) environment" where
  "example_environment =
     \<lparr>api_get_traffic = (\<lambda>stop dest dir line w. (Inr example_departures, w + 1)),
      api_get_line_reports = (\<lambda>line excl w. (Inr [], w + 1)),
      http_get = example_http,
      now = (\<lambda>w. (2, 15)),
      utcnow = (\<lambda>w. 100)\<rparr>"

definition example_coordinator :: IDFMDataUpdateCoordinator where
  "example_coordinator =
     coordinator_init (OtherTransport ''bus'') ''C01742'' (Some ''STIF:StopPoint:Q:200:'')
       None (Some ''STIF:StopPoint:Q:300:'') True"

section \<open>Facts about the path check\<close>

lemma list_index_only_ValueError: "list_index r x = Inl e \<Longrightarrow> e = ValueError"
  by (induction r) (auto split: if_splits sum.splits)

lemma list_index_absent: "x \<notin> set r \<Longrightarrow> list_index r x = Inl ValueError"
  by (induction r) auto

lemma list_index_present: "x \<in> set r \<Longrightarrow> \<exists>i. list_index r x = Inr i"
  by (induction r) auto

lemma list_index_first_at: "list_index r x = Inr i \<longleftrightarrow> first_at r x i"
proof (induction r arbitrary: i)
  case Nil
  show ?case by (simp add: first_at_def)
next
  case (Cons y ys)
  show ?case
  proof (cases "y = x")
    case True
    then show ?thesis by (cases i) (auto simp: first_at_def)
  next
    case False
    show ?thesis
    proof (cases i)
      case 0
      with False show ?thesis by (auto simp: first_at_def split: sum.splits)
    next
      case (Suc n)
      with False Cons.IH [of n] show ?thesis
        by (auto simp: first_at_def split: sum.splits)
    qed
  qed
qed

lemma first_at_mem: "first_at r x i \<Longrightarrow> x \<in> set r"
  by (auto simp: first_at_def)

lemma first_at_unique: "first_at r x i \<Longrightarrow> first_at r x j \<Longrightarrow> i = j"
  using list_index_first_at [of r x i] list_index_first_at [of r x j] by simp

lemma check_routes_spec:
  "check_routes rs s t e = Inr (\<exists>r \<in> set rs. route_serves r s t e)"
proof (induction rs)
  case Nil
  show ?case by simp
next
  case (Cons r rs)
  show ?case
  proof (cases "list_index r s")
    case (Inl a)
    then have a: "a = ValueError" by (rule list_index_only_ValueError)
    from Inl have "\<not> route_serves r s t e"
      by (auto simp: route_serves_def list_index_first_at [symmetric])
    with Inl a Cons.IH show ?thesis by simp
  next
    case s: (Inr i)
    show ?thesis
    proof (cases "list_index r t")
      case (Inl a)
      then have a: "a = ValueError" by (rule list_index_only_ValueError)
      from Inl have "\<not> route_serves r s t e"
        by (auto simp: route_serves_def list_index_first_at [symmetric])
      with Inl a s Cons.IH show ?thesis by simp
    next
      case t: (Inr j)
      show ?thesis
      proof (cases "list_index r e")
        case (Inl a)
        then have a: "a = ValueError" by (rule list_index_only_ValueError)
        from Inl have "\<not> route_serves r s t e"
          by (auto simp: route_serves_def list_index_first_at [symmetric])
        with Inl a s t Cons.IH show ?thesis by simp
      next
        case e: (Inr k)
        have "route_serves r s t e \<longleftrightarrow> i < j \<and> j \<le> k"
          using s t e first_at_mem [of r s i] first_at_mem [of r t j] first_at_mem [of r e k]
          by (auto simp: route_serves_def list_index_first_at [symmetric])
        with s t e Cons.IH show ?thesis by auto
      qed
    qed
  qed
qed

lemma check_routes_skip:
  "s \<notin> set r \<or> t \<notin> set r \<Longrightarrow> check_routes (r # rs) s t e = check_routes rs s t e"
  by (auto simp: list_index_absent split: sum.splits py_error.splits
      dest: list_index_only_ValueError)

lemma check_stop_on_path_spec:
  "check_stop_on_path topo s t e =
     Inr (\<exists>routes. topo e = Some routes \<and> (\<exists>r \<in> set routes. route_serves r s t e))"
  by (cases "topo e") (simp_all add: check_stop_on_path_def check_routes_spec)

lemma first_at_distinct: "distinct r \<Longrightarrow> i < length r \<Longrightarrow> first_at r (r ! i) i"
  by (auto simp: first_at_def in_set_conv_nth distinct_conv_nth)

lemma first_at_last: "distinct r \<Longrightarrow> r \<noteq> [] \<Longrightarrow> first_at r (last r) (length r - 1)"
  using first_at_distinct [of r "length r - 1"] by (simp add: last_conv_nth)

lemma route_serves_distinct:
  assumes "distinct r" "i < length r" "j < length r"
  shows "route_serves r (r ! i) (r ! j) (last r) \<longleftrightarrow> i < j"
proof -
  from assms have ne: "r \<noteq> []" by auto
  have fi: "first_at r (r ! i) i" and fj: "first_at r (r ! j) j"
    using assms by (simp_all add: first_at_distinct)
  have fk: "first_at r (last r) (length r - 1)"
    using assms(1) ne by (rule first_at_last)
  show ?thesis
  proof
    assume "route_serves r (r ! i) (r ! j) (last r)"
    then obtain i' j' where "first_at r (r ! i) i'" "first_at r (r ! j) j'" "i' < j'"
      by (auto simp: route_serves_def)
    with fi fj show "i < j" by (auto dest: first_at_unique)
  next
    assume "i < j"
    moreover from assms(3) have "j \<le> length r - 1" by simp
    ultimately show "route_serves r (r ! i) (r ! j) (last r)"
      using fi fj fk first_at_mem [OF fi] first_at_mem [OF fj] first_at_mem [OF fk]
      unfolding route_serves_def by blast
  qed
qed

lemma route_serves_irrefl: "\<not> route_serves r s s e"
  by (auto simp: route_serves_def dest: first_at_unique)

section \<open>Facts about splitting and normalisation\<close>

lemma split_from_single_append:
  "split_from [c] acc (p @ c # ys) = split_from [c] acc p @ split_from [c] [] ys"
  by (induction p arbitrary: acc) auto

lemma split_from_single_absent: "c \<notin> set s \<Longrightarrow> split_from [c] acc s = [rev acc @ s]"
  by (induction s arbitrary: acc) auto

lemma split_from_nonempty: "split_from sep acc s \<noteq> []"
  by (induction sep acc s rule: split_from.induct) auto

lemma split_from_single_present:
  "c \<in> set s \<Longrightarrow> 2 \<le> length (split_from [c] acc s)"
proof (induction s arbitrary: acc)
  case Nil
  then show ?case by simp
next
  case (Cons x xs)
  show ?case
  proof (cases "x = c")
    case True
    have "split_from [c] [] xs \<noteq> []" by (rule split_from_nonempty)
    then have "1 \<le> length (split_from [c] [] xs)" by (cases "split_from [c] [] xs") auto
    with True show ?thesis by simp
  next
    case False
    with Cons show ?thesis by simp
  qed
qed

lemma list_getitem_minus2_append: "list_getitem (xs @ [a, b]) (- 2) = Inr a"
  by (simp add: list_getitem_def nth_append)

lemma list_getitem_minus2_single: "list_getitem [a] (- 2) = Inl IndexError"
  by (simp add: list_getitem_def)

lemma list_getitem_minus2_long: "2 \<le> length xs \<Longrightarrow> \<exists>a. list_getitem xs (- 2) = Inr a"
  by (simp add: list_getitem_def)

lemma second_to_last_code:
  assumes "CHR '':'' \<notin> set code"
  shows "second_to_last (p @ '':'' @ code @ '':'') = Inr code"
proof -
  have "split_from '':'' [] (code @ CHR '':'' # []) = [code, []]"
    using assms by (simp add: split_from_single_append split_from_single_absent)
  then have "split_from '':'' [] (p @ CHR '':'' # (code @ '':'')) =
      split_from '':'' [] p @ [code, []]"
    by (simp add: split_from_single_append)
  then show ?thesis
    by (simp add: second_to_last_def py_split_def list_getitem_minus2_append)
qed

lemma second_to_last_no_colon:
  "CHR '':'' \<notin> set s \<Longrightarrow> second_to_last s = Inl IndexError"
  by (simp add: second_to_last_def py_split_def split_from_single_absent
      list_getitem_minus2_single)

lemma second_to_last_colon:
  "CHR '':'' \<in> set s \<Longrightarrow> \<exists>code. second_to_last s = Inr code"
  using split_from_single_present [of "CHR '':''" s "[]"]
  by (simp add: second_to_last_def py_split_def list_getitem_minus2_long)

lemma second_to_last_error: "second_to_last s = Inl e \<Longrightarrow> e = IndexError"
  by (auto simp: second_to_last_def py_split_def list_getitem_def split: if_splits)

lemma contains_sublist: "contains sub s \<longleftrightarrow> sublist sub s"
  by (induction s) (simp_all add: sublist_Cons_right)

lemma contains_set: "contains sub s \<Longrightarrow> set sub \<subseteq> set s"
  by (simp add: contains_sublist set_mono_sublist)

lemma no_colon_no_IDFM: "CHR '':'' \<notin> set s \<Longrightarrow> \<not> contains ''IDFM:'' s"
  by (auto dest: contains_set)

lemma split_from_absent: "\<not> contains sep s \<Longrightarrow> split_from sep acc s = [rev acc @ s]"
  by (induction s arbitrary: acc) auto

lemma prefix_within:
  assumes "length sep \<le> length u"
  shows "prefix sep (u @ v) \<longleftrightarrow> prefix sep u"
proof
  assume "prefix sep (u @ v)"
  then obtain zs where "u @ v = sep @ zs" by (auto simp: prefix_def)
  then have "take (length sep) (u @ v) = take (length sep) (sep @ zs)" by simp
  then have "sep = take (length sep) (u @ v)" by simp
  with assms have "sep = take (length sep) u" by simp
  then show "prefix sep u" by (metis take_is_prefix)
next
  assume "prefix sep u"
  then show "prefix sep (u @ v)" by (rule prefix_prefix)
qed

lemma split_from_first:
  assumes "sep \<noteq> []" and "\<not> contains sep (p @ butlast sep)"
  shows "split_from sep acc (p @ sep @ rest) = (rev acc @ p) # split_from sep [] rest"
  using assms(2)
proof (induction p arbitrary: acc)
  case Nil
  from assms(1) obtain c cs where sep: "sep = c # cs" by (cases sep) auto
  then show ?case by simp
next
  case (Cons x p)
  have len: "length sep \<le> length ((x # p) @ butlast sep)" by simp
  from Cons.prems have "\<not> prefix sep ((x # p) @ butlast sep)" by simp
  then have np: "\<not> prefix sep (((x # p) @ butlast sep) @ [last sep] @ rest)"
    using prefix_within [OF len, of "[last sep] @ rest"] by blast
  have "butlast sep @ [last sep] = sep" using assms(1) by simp
  then have "((x # p) @ butlast sep) @ [last sep] @ rest = x # p @ sep @ rest"
    by (metis append.assoc append_Cons)
  with np have "\<not> prefix sep (x # p @ sep @ rest)" by metis
  moreover from Cons.prems have "\<not> contains sep (p @ butlast sep)" by simp
  ultimately show ?case using Cons.IH [of "x # acc"] by simp
qed

lemma stif_part_plain: "\<not> contains ''IDFM:'' s \<Longrightarrow> stif_part s = Inr s"
  by (simp add: stif_part_def)

lemma contains_middle: "contains sep (p @ sep @ rest)"
  unfolding contains_sublist sublist_def by blast

lemma stif_part_prefixed:
  assumes "\<not> contains ''IDFM:'' (p @ ''IDFM'')" and "\<not> contains ''IDFM:'' rest"
  shows "stif_part (p @ ''IDFM:'' @ rest) = Inr rest"
proof -
  have "split_from ''IDFM:'' [] (p @ ''IDFM:'' @ rest) = p # split_from ''IDFM:'' [] rest"
    using split_from_first [of "''IDFM:''" p "[]" rest] assms(1) by simp
  also have "\<dots> = [p, rest]" using assms(2) by (simp add: split_from_absent)
  finally have "split_from ''IDFM:'' [] (p @ ''IDFM:'' @ rest) = [p, rest]" .
  moreover have "contains ''IDFM:'' (p @ ''IDFM:'' @ rest)" by (rule contains_middle)
  ultimately show ?thesis
    by (simp add: stif_part_def py_split_def list_getitem_def)
qed

lemma check_routes_absent:
  assumes "\<forall>r \<in> set rs. x \<notin> set r" and "x = s \<or> x = t \<or> x = e"
  shows "check_routes rs s t e = Inr False"
  using assms by (auto simp: check_routes_spec route_serves_def)

lemma second_to_last_penultimate:
  assumes "penultimate s seg"
  shows "second_to_last s = Inr seg"
proof -
  from assms obtain q tail where s: "s = q @ seg @ '':'' @ tail"
    and seg: "CHR '':'' \<notin> set seg" and tail: "CHR '':'' \<notin> set tail"
    and q: "q = [] \<or> last q = CHR '':''"
    by (auto simp: penultimate_def)
  have two: "split_from '':'' [] (seg @ CHR '':'' # tail) = [seg, tail]"
    using seg tail by (simp add: split_from_single_append split_from_single_absent)
  from q show ?thesis
  proof
    assume "q = []"
    with s two have "split_from '':'' [] s = [seg, tail]" by simp
    then show ?thesis
      by (simp add: second_to_last_def py_split_def list_getitem_def)
  next
    assume l: "last q = CHR '':''"
    show ?thesis
    proof (cases "q = []")
      case True
      with s two have "split_from '':'' [] s = [seg, tail]" by simp
      then show ?thesis
        by (simp add: second_to_last_def py_split_def list_getitem_def)
    next
      case False
      with l have "q = butlast q @ '':''" by (metis append_butlast_last_id)
      with s have "s = butlast q @ CHR '':'' # (seg @ CHR '':'' # tail)"
        by (metis append.assoc append_Cons append_Nil)
      then have "split_from '':'' [] s = split_from '':'' [] (butlast q) @ [seg, tail]"
        using two by (simp only: split_from_single_append)
      then show ?thesis
        by (simp add: second_to_last_def py_split_def list_getitem_minus2_append)
    qed
  qed
qed

lemma penultimate_exists:
  assumes "CHR '':'' \<in> set s"
  shows "\<exists>seg. penultimate s seg"
proof -
  from assms obtain u tail where s: "s = u @ CHR '':'' # tail" and tail: "CHR '':'' \<notin> set tail"
    using split_list_last by fastforce
  show ?thesis
  proof (cases "CHR '':'' \<in> set u")
    case False
    with s tail have "penultimate s u"
      unfolding penultimate_def by (intro exI [of _ "[]"] exI [of _ tail]) simp
    then show ?thesis ..
  next
    case True
    then obtain q' seg where u: "u = q' @ CHR '':'' # seg" and seg: "CHR '':'' \<notin> set seg"
      using split_list_last by fastforce
    with s tail have "penultimate s seg"
      unfolding penultimate_def by (intro exI [of _ "q' @ '':''"] exI [of _ tail]) simp
    then show ?thesis ..
  qed
qed

lemma penultimate_composite:
  "CHR '':'' \<notin> set code \<Longrightarrow> penultimate (composite a b c code) code"
  unfolding penultimate_def composite_def
  by (intro exI [of _ "a @ '':'' @ b @ '':'' @ c @ '':''"] exI [of _ "[]"]) simp

lemma penultimate_colon: "penultimate s seg \<Longrightarrow> CHR '':'' \<in> set s"
  by (auto simp: penultimate_def)

lemma contains_short: "length s < length sep \<Longrightarrow> \<not> contains sep s"
  by (auto simp: contains_sublist dest: sublist_length_le)

lemma first_occurrence:
  assumes "sep \<noteq> []"
  shows "contains sep s \<Longrightarrow> \<exists>p r. s = p @ sep @ r \<and> \<not> contains sep (p @ butlast sep)"
proof (induction s)
  case Nil
  with assms show ?case by simp
next
  case (Cons c cs)
  show ?case
  proof (cases "prefix sep (c # cs)")
    case True
    then obtain r where "c # cs = [] @ sep @ r" by (auto simp: prefix_def)
    moreover have "\<not> contains sep ([] @ butlast sep)"
      using assms by (simp add: contains_short)
    ultimately show ?thesis by blast
  next
    case False
    with Cons.prems have "contains sep cs" by simp
    from Cons.IH [OF this] obtain p r where cs: "cs = p @ sep @ r"
      and np: "\<not> contains sep (p @ butlast sep)" by blast
    have len: "length sep \<le> length ((c # p) @ butlast sep)" by simp
    have "butlast sep @ [last sep] = sep" using assms by simp
    then have "((c # p) @ butlast sep) @ [last sep] @ r = c # cs"
      using cs by (metis append.assoc append_Cons)
    with False have "\<not> prefix sep (((c # p) @ butlast sep) @ [last sep] @ r)" by simp
    then have "\<not> prefix sep ((c # p) @ butlast sep)"
      using prefix_within [OF len, of "[last sep] @ r"] by blast
    with np have "\<not> contains sep ((c # p) @ butlast sep)" by simp
    moreover from cs have "c # cs = (c # p) @ sep @ r" by simp
    ultimately show ?thesis by blast
  qed
qed

lemma after_authority_exists: "\<exists>part. after_authority s part"
proof (cases "contains ''IDFM:'' s")
  case False
  then show ?thesis by (auto simp: after_authority_def)
next
  case True
  then obtain p r where s: "s = p @ ''IDFM:'' @ r" and p: "\<not> contains ''IDFM:'' (p @ ''IDFM'')"
    using first_occurrence [of "''IDFM:''" s] by auto
  show ?thesis
  proof (cases "contains ''IDFM:'' r")
    case False
    with s p have "after_authority s r" unfolding after_authority_def by blast
    then show ?thesis ..
  next
    case True
    then obtain m t where r: "r = m @ ''IDFM:'' @ t" and m: "\<not> contains ''IDFM:'' (m @ ''IDFM'')"
      using first_occurrence [of "''IDFM:''" r] by auto
    from s r have "s = p @ ''IDFM:'' @ m @ ''IDFM:'' @ t" by simp
    with p m have "after_authority s m" unfolding after_authority_def by blast
    then show ?thesis ..
  qed
qed

lemma stif_part_between:
  assumes "\<not> contains ''IDFM:'' (p @ ''IDFM'')" and "\<not> contains ''IDFM:'' (part @ ''IDFM'')"
  shows "stif_part (p @ ''IDFM:'' @ part @ ''IDFM:'' @ t) = Inr part"
proof -
  have "split_from ''IDFM:'' [] (p @ ''IDFM:'' @ part @ ''IDFM:'' @ t)
      = p # split_from ''IDFM:'' [] (part @ ''IDFM:'' @ t)"
    using split_from_first [of "''IDFM:''" p "[]" "part @ ''IDFM:'' @ t"] assms(1) by simp
  also have "\<dots> = p # part # split_from ''IDFM:'' [] t"
    using split_from_first [of "''IDFM:''" part "[]" t] assms(2) by simp
  finally have "split_from ''IDFM:'' [] (p @ ''IDFM:'' @ part @ ''IDFM:'' @ t)
      = p # part # split_from ''IDFM:'' [] t" .
  moreover have "contains ''IDFM:'' (p @ ''IDFM:'' @ part @ ''IDFM:'' @ t)"
    by (rule contains_middle)
  ultimately show ?thesis
    by (simp add: stif_part_def py_split_def list_getitem_def)
qed

lemma stif_part_after_authority:
  assumes "after_authority s part"
  shows "stif_part s = Inr part"
proof -
  from assms consider (plain) "\<not> contains ''IDFM:'' s" "part = s"
    | (last) p where "\<not> contains ''IDFM:'' (p @ ''IDFM'')" "s = p @ ''IDFM:'' @ part"
        "\<not> contains ''IDFM:'' part"
    | (inner) p t where "\<not> contains ''IDFM:'' (p @ ''IDFM'')"
        "s = p @ ''IDFM:'' @ part @ ''IDFM:'' @ t" "\<not> contains ''IDFM:'' (part @ ''IDFM'')"
    unfolding after_authority_def by blast
  then show ?thesis
  proof cases
    case plain
    then show ?thesis using stif_part_plain [of s] by simp
  next
    case last
    from stif_part_prefixed [OF last(1) last(3)] last(2) show ?thesis by simp
  next
    case inner
    from stif_part_between [OF inner(1) inner(3), of t] inner(2) show ?thesis by simp
  qed
qed

lemma topology_extract_no_colon:
  "after_authority s part \<Longrightarrow> CHR '':'' \<notin> set part \<Longrightarrow> topology_extract_stif_id (JStr s) = Inr None"
  by (simp add: stif_part_after_authority second_to_last_no_colon)

lemma topology_extract_penultimate:
  "after_authority s part \<Longrightarrow> penultimate part seg
   \<Longrightarrow> topology_extract_stif_id (JStr s) = Inr (Some seg)"
  by (simp add: stif_part_after_authority second_to_last_penultimate)

section \<open>Facts about the topology fetch\<close>

lemma navitia_request_logged:
  "navitia_request (logged_http http) u (w, log) =
     (fst (navitia_request http u w), (snd (navitia_request http u w), log @ [u]))"
  by (auto simp: navitia_request_def logged_http_def split: prod.splits http_result.splits
      option.splits)

lemma navitia_request_failed:
  assumes "fst (http u w) = TransportError
     \<or> (\<exists>status body. fst (http u w) = Response status body \<and> status \<noteq> 200)"
  shows "fst (navitia_request http u w) = JNull"
  using assms by (cases "http u w") (auto simp: navitia_request_def split: http_result.splits)

lemma routes_loop_log_grows:
  "routes_loop (logged_http http) rs t (w, log) = (res, (w', log')) \<Longrightarrow> \<exists>rest. log' = log @ rest"
proof (induction rs arbitrary: t w log res)
  case Nil
  then show ?case by simp
next
  case (Cons r rs)
  show ?case
  proof (cases "py_getitem r ''id''")
    case (Inl e)
    with Cons.prems show ?thesis by simp
  next
    case (Inr route_id)
    let ?u = "RouteStopPoints route_id"
    let ?j = "fst (navitia_request http ?u w)"
    let ?w1 = "snd (navitia_request http ?u w)"
    have req: "navitia_request (logged_http http) ?u (w, log) = (?j, (?w1, log @ [?u]))"
      by (rule navitia_request_logged)
    have "log' = log @ [?u]
      \<or> (\<exists>t' res'. routes_loop (logged_http http) rs t' (?w1, log @ [?u]) = (res', (w', log')))"
      using Cons.prems Inr req
      by (auto split: sum.splits bool.splits if_splits)
    then show ?thesis
    proof
      assume "log' = log @ [?u]"
      then show ?thesis by simp
    next
      assume "\<exists>t' res'. routes_loop (logged_http http) rs t' (?w1, log @ [?u]) = (res', (w', log'))"
      then obtain t' res' where
        "routes_loop (logged_http http) rs t' (?w1, log @ [?u]) = (res', (w', log'))"
        by blast
      from Cons.IH [OF this] show ?thesis by auto
    qed
  qed
qed

lemma get_ordered_stops_cached:
  "topology_cache self l = Some table \<Longrightarrow> get_ordered_stops http self l w = (Inr table, self, w)"
  by (simp add: get_ordered_stops_def)

lemma get_ordered_stops_failed:
  assumes "topology_cache self l = None" and "fst (navitia_request http (LineRoutes l) w) = JNull"
  shows "get_ordered_stops http self l w =
           (Inr Map.empty, self, snd (navitia_request http (LineRoutes l) w))"
  using assms by (cases "navitia_request http (LineRoutes l) w") (simp add: get_ordered_stops_def)

lemma get_ordered_stops_uncached_log:
  assumes "topology_cache self l = None"
    and "get_ordered_stops (logged_http http) self l (w, log) = (res, self', (w', log'))"
  shows "\<exists>rest. log' = log @ LineRoutes l # rest"
proof -
  let ?u = "LineRoutes l"
  let ?j = "fst (navitia_request http ?u w)"
  let ?w1 = "snd (navitia_request http ?u w)"
  have req: "navitia_request (logged_http http) ?u (w, log) = (?j, (?w1, log @ [?u]))"
    by (rule navitia_request_logged)
  have "log' = log @ [?u]
    \<or> (\<exists>rs t res'. routes_loop (logged_http http) rs t (?w1, log @ [?u]) = (res', (w', log')))"
    using assms req
    by (auto simp: get_ordered_stops_def split: sum.splits bool.splits if_splits prod.splits)
  then show ?thesis
  proof
    assume "log' = log @ [?u]"
    then show ?thesis by simp
  next
    assume "\<exists>rs t res'. routes_loop (logged_http http) rs t (?w1, log @ [?u]) = (res', (w', log'))"
    then obtain rs t res' where
      "routes_loop (logged_http http) rs t (?w1, log @ [?u]) = (res', (w', log'))"
      by blast
    from routes_loop_log_grows [OF this] show ?thesis by auto
  qed
qed

lemma get_ordered_stops_keeps:
  assumes "topology_cache self l = Some table"
    and "get_ordered_stops http self other w = (res, self', w')"
  shows "topology_cache self' l = Some table"
proof (cases "topology_cache self other")
  case (Some cached)
  with assms show ?thesis by (simp add: get_ordered_stops_def)
next
  case None
  with assms(1) have ne: "other \<noteq> l" by auto
  have "self' = fst (snd (get_ordered_stops http self other w))"
    using assms(2) by simp
  then have "self' = self \<or> (\<exists>t. self' = self\<lparr>topology_cache := (topology_cache self)(other \<mapsto> t)\<rparr>)"
    using None
    by (auto simp: get_ordered_stops_def split: sum.splits bool.splits if_splits prod.splits)
  with assms(1) ne show ?thesis by auto
qed

lemma run_calls_keeps:
  "topology_cache self l = Some table \<Longrightarrow> run_calls http self ls w = (self', w')
   \<Longrightarrow> topology_cache self' l = Some table"
proof (induction ls arbitrary: self w)
  case Nil
  then show ?case by simp
next
  case (Cons x xs)
  obtain res self1 w1 where step: "get_ordered_stops http self x w = (res, self1, w1)"
    by (metis prod_cases3)
  from Cons.prems(1) step have "topology_cache self1 l = Some table"
    by (rule get_ordered_stops_keeps)
  moreover from Cons.prems(2) step have "run_calls http self1 xs w1 = (self', w')" by simp
  ultimately show ?case by (rule Cons.IH)
qed

text \<open>Every table the resolver builds, and so every table it caches, holds real
  identifiers only.\<close>

lemma collect_stops_real:
  "collect_stops sps acc = Inr stops \<Longrightarrow> None \<notin> set acc \<Longrightarrow> None \<notin> set stops"
proof (induction sps arbitrary: acc)
  case Nil
  then show ?case by simp
next
  case (Cons sp sps)
  from Cons.prems(1) obtain v stop_id where
    "collect_stops sps (if stop_id \<noteq> None \<and> stop_id \<noteq> Some [] then acc @ [stop_id] else acc)
       = Inr stops"
    by (auto split: sum.splits)
  moreover from Cons.prems(2) have
    "None \<notin> set (if stop_id \<noteq> None \<and> stop_id \<noteq> Some [] then acc @ [stop_id] else acc)"
    by auto
  ultimately show ?case by (rule Cons.IH)
qed

lemma add_route_real:
  "real_routes t \<Longrightarrow> None \<notin> set stops \<Longrightarrow> real_routes (add_route t stops)"
  unfolding real_routes_def add_route_def Let_def
  by (auto split: option.splits if_splits) metis

lemma routes_loop_real:
  "routes_loop http rs t w = (Inr t', w') \<Longrightarrow> real_routes t \<Longrightarrow> real_routes t'"
proof (induction rs arbitrary: t w)
  case Nil
  then show ?case by simp
next
  case (Cons r rs)
  from Cons.prems(1) have
    "(\<exists>w1. routes_loop http rs t w1 = (Inr t', w'))
     \<or> (\<exists>w1 sps stops. collect_stops sps [] = Inr stops
           \<and> routes_loop http rs (add_route t stops) w1 = (Inr t', w'))"
    by (auto split: sum.splits prod.splits bool.splits if_splits)
  then show ?case
  proof
    assume "\<exists>w1. routes_loop http rs t w1 = (Inr t', w')"
    with Cons.IH Cons.prems(2) show ?thesis by blast
  next
    assume "\<exists>w1 sps stops. collect_stops sps [] = Inr stops
           \<and> routes_loop http rs (add_route t stops) w1 = (Inr t', w')"
    then obtain w1 sps stops where c: "collect_stops sps [] = Inr stops"
      and l: "routes_loop http rs (add_route t stops) w1 = (Inr t', w')"
      by blast
    from c have "None \<notin> set stops" by (rule collect_stops_real) simp
    with Cons.prems(2) have "real_routes (add_route t stops)" by (rule add_route_real)
    with l show ?thesis by (rule Cons.IH)
  qed
qed

lemma get_ordered_stops_real:
  assumes "get_ordered_stops http self l w = (Inr t, self', w')"
    and "\<forall>cached \<in> ran (topology_cache self). real_routes cached"
  shows "real_routes t \<and> (\<forall>cached \<in> ran (topology_cache self'). real_routes cached)"
proof (cases "topology_cache self l")
  case (Some cached)
  with assms show ?thesis by (auto simp: get_ordered_stops_def ran_def)
next
  case None
  have empty: "real_routes Map.empty" by (simp add: real_routes_def)
  from assms(1) None have
    "(t = Map.empty \<and> self' = self)
     \<or> (\<exists>rs w1. routes_loop http rs Map.empty w1 = (Inr t, w')
           \<and> self' = self\<lparr>topology_cache := (topology_cache self)(l \<mapsto> t)\<rparr>)"
    by (auto simp: get_ordered_stops_def split: sum.splits prod.splits bool.splits if_splits)
  then show ?thesis
  proof
    assume "t = Map.empty \<and> self' = self"
    with assms(2) empty show ?thesis by simp
  next
    assume "\<exists>rs w1. routes_loop http rs Map.empty w1 = (Inr t, w')
           \<and> self' = self\<lparr>topology_cache := (topology_cache self)(l \<mapsto> t)\<rparr>"
    then obtain rs w1 where l: "routes_loop http rs Map.empty w1 = (Inr t, w')"
      and s: "self' = self\<lparr>topology_cache := (topology_cache self)(l \<mapsto> t)\<rparr>"
      by blast
    from l empty have rt: "real_routes t" by (rule routes_loop_real)
    moreover from s None have "ran (topology_cache self') = insert t (ran (topology_cache self))"
      by simp
    ultimately show ?thesis using assms(2) by simp
  qed
qed

section \<open>Facts about the rotator\<close>

lemma pool_ok_rotate:
  "pool_ok s \<Longrightarrow> tokens s \<noteq> [] \<Longrightarrow>
   rotate_key s = Inr (s\<lparr>current_token_index := (current_token_index s + 1) mod length (tokens s)\<rparr>)
   \<and> pool_ok (s\<lparr>current_token_index := (current_token_index s + 1) mod length (tokens s)\<rparr>)"
  by (auto simp: pool_ok_def rotate_key_def)

lemma pool_ok_current:
  "pool_ok s \<Longrightarrow> tokens s \<noteq> [] \<Longrightarrow> current_client s = Inr (clients s ! current_token_index s)"
  by (auto simp: pool_ok_def current_client_def)

lemma rotation_indices_Suc:
  "rotation_indices s (Suc n) =
     (current_token_index s mod length (tokens s)) #
     rotation_indices (s\<lparr>current_token_index := (current_token_index s + 1) mod length (tokens s)\<rparr>) n"
proof -
  have "[0..<Suc n] = 0 # map Suc [0..<n]"
    by (simp add: upt_conv_Cons map_Suc_upt del: upt_Suc)
  then show ?thesis
    by (simp add: rotation_indices_def mod_add_left_eq del: upt_Suc)
qed

lemma loop_all_429:
  assumes "always_rate_limited func"
  shows "pool_ok s \<Longrightarrow> n = length (tokens s) - attempts \<Longrightarrow> attempts \<le> length (tokens s) \<Longrightarrow>
    \<exists>w'. call_with_retry_loop (logged func) attempts (length (tokens s)) s (w, log) =
      (Inl (RequestError 429 ''All API keys are rate limited.''),
       s\<lparr>current_token_index := (current_token_index s + n) mod length (tokens s)\<rparr>,
       (w', log @ rotation_from s n))"
proof (induction n arbitrary: attempts s w log)
  case 0
  then show ?case
    by (auto simp: rotation_from_def rotation_indices_def pool_ok_def
        call_with_retry_loop.simps [of _ attempts])
next
  case (Suc n)
  let ?N = "length (tokens s)"
  let ?c = "clients s ! current_token_index s"
  let ?s1 = "s\<lparr>current_token_index := (current_token_index s + 1) mod ?N\<rparr>"
  from Suc.prems have lt: "attempts < ?N" and ne: "tokens s \<noteq> []" by auto
  from Suc.prems ne have idx: "current_token_index s < ?N" by (auto simp: pool_ok_def)
  from assms obtain msg where f: "fst (func ?c w) = Inl (RequestError 429 msg)"
    unfolding always_rate_limited_def by blast
  obtain w1 where f1: "func ?c w = (Inl (RequestError 429 msg), w1)"
    using f by (cases "func ?c w") auto
  have cur: "current_client s = Inr ?c" using Suc.prems(1) ne by (rule pool_ok_current)
  have rot: "rotate_key s = Inr ?s1" and ok1: "pool_ok ?s1"
    using pool_ok_rotate [OF Suc.prems(1) ne] by simp_all
  have step: "call_with_retry_loop (logged func) attempts ?N s (w, log) =
      call_with_retry_loop (logged func) (attempts + 1) ?N ?s1 (w1, log @ [?c])"
    using lt cur rot f1 by (simp add: logged_def call_with_retry_loop.simps [of _ attempts])
  have "n = length (tokens ?s1) - (attempts + 1)" "attempts + 1 \<le> length (tokens ?s1)"
    using Suc.prems lt by simp_all
  from Suc.IH [OF ok1 this, of w1 "log @ [?c]"] obtain w' where
    ih: "call_with_retry_loop (logged func) (attempts + 1) ?N ?s1 (w1, log @ [?c]) =
      (Inl (RequestError 429 ''All API keys are rate limited.''),
       ?s1\<lparr>current_token_index := (current_token_index ?s1 + n) mod ?N\<rparr>,
       (w', (log @ [?c]) @ rotation_from ?s1 n))"
    by auto
  have st: "?s1\<lparr>current_token_index := (current_token_index ?s1 + n) mod ?N\<rparr> =
      s\<lparr>current_token_index := (current_token_index s + Suc n) mod ?N\<rparr>"
    by (simp add: mod_add_left_eq)
  have lg: "(log @ [?c]) @ rotation_from ?s1 n = log @ rotation_from s (Suc n)"
    using idx by (simp add: rotation_from_def rotation_indices_Suc)
  from step ih st lg show ?case by auto
qed

lemma mod_shift_le:
  assumes "(i + k) mod N = (i + k') mod (N::nat)" "k \<le> k'" "k' < N"
  shows "k = k'"
proof (rule ccontr)
  assume "k \<noteq> k'"
  with assms have pos: "0 < k' - k" and small: "k' - k < N" by simp_all
  from assms(1,2) have "N dvd (i + k') - (i + k)"
    by (metis add_le_cancel_left mod_eq_dvd_iff_nat)
  then have "N dvd k' - k" by simp
  with pos small show False by (simp add: nat_dvd_not_less)
qed

lemma mod_shift_inj:
  assumes "(i + k) mod N = (i + k') mod (N::nat)" "k < N" "k' < N"
  shows "k = k'"
proof (cases "k \<le> k'")
  case True
  with assms show ?thesis by (auto dest: mod_shift_le)
next
  case False
  then have "k' \<le> k" by simp
  from mod_shift_le [OF assms(1) [symmetric] this assms(2)] show ?thesis by simp
qed

lemma rotation_indices_distinct: "distinct (rotation_indices s (length (tokens s)))"
  by (auto simp: rotation_indices_def distinct_map inj_on_def dest: mod_shift_inj)

lemma rotation_indices_length: "length (rotation_indices s n) = n"
  by (simp add: rotation_indices_def)

lemma loop_other_error:
  assumes "attempts < max_attempts" and "current_client s = Inr c"
    and "func c w = (Inl e, w')" and "\<forall>msg. e \<noteq> RequestError 429 msg"
  shows "call_with_retry_loop (logged func) attempts max_attempts s (w, log) =
           (Inl e, s, (w', log @ [c]))"
  using assms by (cases e) (auto simp: logged_def call_with_retry_loop.simps [of _ attempts])

lemma loop_success:
  assumes "attempts < max_attempts" and "current_client s = Inr c"
    and "func c w = (Inr r, w')"
  shows "call_with_retry_loop (logged func) attempts max_attempts s (w, log) =
           (Inr r, s, (w', log @ [c]))"
  using assms by (auto simp: logged_def call_with_retry_loop.simps [of _ attempts])

lemma loop_rate_limited:
  assumes "attempts < max_attempts" and "current_client s = Inr c"
    and "func c w = (Inl (RequestError 429 msg), w')" and "rotate_key s = Inr s'"
  shows "call_with_retry_loop (logged func) attempts max_attempts s (w, log) =
           call_with_retry_loop (logged func) (attempts + 1) max_attempts s' (w', log @ [c])"
  using assms by (auto simp: logged_def call_with_retry_loop.simps [of _ attempts])

lemma loop_log_grows:
  "call_with_retry_loop (logged func) attempts max_attempts s (w, log) = (res, s', (w', log'))
   \<Longrightarrow> \<exists>rest. log' = log @ rest"
proof (induction "max_attempts - attempts" arbitrary: attempts s w log)
  case 0
  then show ?case by (simp add: call_with_retry_loop.simps [of _ attempts])
next
  case (Suc n)
  then have lt: "attempts < max_attempts" by simp
  show ?case
  proof (cases "current_client s")
    case (Inl e)
    with Suc.prems lt show ?thesis by (simp add: call_with_retry_loop.simps [of _ attempts])
  next
    case (Inr c)
    obtain r w1 where f: "func c w = (r, w1)" by (cases "func c w")
    show ?thesis
    proof (cases r)
      case (Inr v)
      with f have "func c w = (Inr v, w1)" by simp
      from loop_success [where func = func and w = w and log = log, OF lt \<open>current_client s = Inr c\<close> this]
        Suc.prems
      show ?thesis by simp
    next
      case (Inl e)
      show ?thesis
      proof (cases "\<exists>msg. e = RequestError 429 msg")
        case False
        from f Inl have "func c w = (Inl e, w1)" by simp
        from loop_other_error [where func = func and w = w and log = log,
            OF lt \<open>current_client s = Inr c\<close> this] False Suc.prems
        show ?thesis by simp
      next
        case True
        then obtain msg where e: "e = RequestError 429 msg" by blast
        show ?thesis
        proof (cases "rotate_key s")
          case rk: (Inl x)
          with lt \<open>current_client s = Inr c\<close> f Inl e Suc.prems show ?thesis
            by (auto simp: logged_def call_with_retry_loop.simps [of _ attempts])
        next
          case rk: (Inr s1)
          from f Inl e have "func c w = (Inl (RequestError 429 msg), w1)" by simp
          from loop_rate_limited [where func = func and w = w and log = log,
              OF lt \<open>current_client s = Inr c\<close> this rk]
          have "call_with_retry_loop (logged func) attempts max_attempts s (w, log) =
             call_with_retry_loop (logged func) (attempts + 1) max_attempts s1 (w1, log @ [c])"
            by simp
          with Suc.prems have "call_with_retry_loop (logged func) (attempts + 1) max_attempts s1
              (w1, log @ [c]) = (res, s', (w', log'))" by simp
          moreover from Suc.hyps(2) have "n = max_attempts - (attempts + 1)" by simp
          ultimately have "\<exists>rest. log' = (log @ [c]) @ rest" by (rule Suc.hyps(1) [rotated])
          then show ?thesis by auto
        qed
      qed
    qed
  qed
qed

lemma loop_first_call:
  assumes lt: "attempts < max_attempts" and cur: "current_client s = Inr c"
    and run: "call_with_retry_loop (logged func) attempts max_attempts s (w, log) =
           (res, s', (w', log'))"
  shows "\<exists>rest. log' = log @ c # rest"
proof -
  obtain r w1 where f: "func c w = (r, w1)" by (cases "func c w")
  show ?thesis
  proof (cases r)
    case (Inr v)
    with f have "func c w = (Inr v, w1)" by simp
    from loop_success [where func = func and w = w and log = log, OF lt cur this] run
    show ?thesis by simp
  next
    case (Inl e)
    show ?thesis
    proof (cases "\<exists>msg. e = RequestError 429 msg")
      case False
      from f Inl have "func c w = (Inl e, w1)" by simp
      from loop_other_error [where func = func and w = w and log = log, OF lt cur this] False run
      show ?thesis by simp
    next
      case True
      then obtain msg where e: "e = RequestError 429 msg" by blast
      show ?thesis
      proof (cases "rotate_key s")
        case rk: (Inl x)
        with lt cur f Inl e run show ?thesis
          by (auto simp: logged_def call_with_retry_loop.simps [of _ attempts])
      next
        case rk: (Inr s1)
        from f Inl e have "func c w = (Inl (RequestError 429 msg), w1)" by simp
        from loop_rate_limited [where func = func and w = w and log = log, OF lt cur this rk] run
        have "call_with_retry_loop (logged func) (attempts + 1) max_attempts s1
              (w1, log @ [c]) = (res, s', (w', log'))" by simp
        then have "\<exists>rest. log' = (log @ [c]) @ rest" by (rule loop_log_grows)
        then show ?thesis by auto
      qed
    qed
  qed
qed

section \<open>Facts about the refresh\<close>

lemma filter_trains_served:
  "filter_trains topo_data self tr acc = Inr (acc @ filter (served topo_data self) tr)"
proof (induction tr arbitrary: acc)
  case Nil
  show ?case by simp
next
  case (Cons train rest)
  obtain b where b: "check_stop_on_path topo_data (stop_id_simple self) (destination_simple self)
      (coordinator_extract_stif_id (destination_id train)) = Inr b"
    by (simp add: check_stop_on_path_spec)
  then have "served topo_data self train \<longleftrightarrow> b" by (simp add: served_def)
  with b Cons.IH show ?case by (simp add: Let_def)
qed

lemma upcoming_iff: "upcoming utcd x \<longleftrightarrow> schedule x \<noteq> None \<and> the (schedule x) > utcd"
  by (cases "schedule x") (simp_all add: upcoming_def)

lemma sorted_tr_upcoming:
  "sorted_tr utcd tr = sort_key (\<lambda>x. the (schedule x)) (filter (upcoming utcd) tr)"
proof -
  have eq: "(\<lambda>x. schedule x \<noteq> None \<and> the (schedule x) > utcd) = upcoming utcd"
    by (rule ext) (simp only: upcoming_iff)
  show ?thesis unfolding sorted_tr_def eq by (rule refl)
qed

lemma sorted_tr_mset: "mset (sorted_tr utcd tr) = filter_mset (upcoming utcd) (mset tr)"
  by (simp add: sorted_tr_upcoming)

lemma sorted_tr_sorted: "sorted (map (\<lambda>x. the (schedule x)) (sorted_tr utcd tr))"
  by (simp add: sorted_tr_upcoming)

section \<open>Claims about the path check\<close>

text \<open>
  C1. \<open>check_stop_on_path\<close> never raises, and it returns true exactly when the
  terminus is a key of the table and some route stored under that key contains start,
  target and terminus with \<open>index(start) < index(target) \<le> index(terminus)\<close>, the
  index being the first position as \<open>list.index\<close> gives it. When the terminus is
  not a key the result is false whatever the other arguments are. A route that lacks
  the start or the target is skipped: the answer is the one the remaining routes give.
\<close>

theorem check_stop_on_path_iff:
  "check_stop_on_path topo s t e =
     Inr (\<exists>routes. topo e = Some routes \<and> (\<exists>r \<in> set routes. route_serves r s t e))
   \<and> (topo e = None \<longrightarrow> check_stop_on_path topo s t e = Inr False)
   \<and> (s \<notin> set r \<or> t \<notin> set r \<longrightarrow>
        check_stop_on_path (topo(e \<mapsto> r # rs)) s t e =
        check_stop_on_path (topo(e \<mapsto> rs)) s t e)"
proof (intro conjI impI)
  show "check_stop_on_path topo s t e =
     Inr (\<exists>routes. topo e = Some routes \<and> (\<exists>r \<in> set routes. route_serves r s t e))"
    by (rule check_stop_on_path_spec)
next
  assume "topo e = None"
  then show "check_stop_on_path topo s t e = Inr False"
    by (simp add: check_stop_on_path_def)
next
  assume "s \<notin> set r \<or> t \<notin> set r"
  then have "check_routes (r # rs) s t e = check_routes rs s t e"
    by (rule check_routes_skip)
  then show "check_stop_on_path (topo(e \<mapsto> r # rs)) s t e =
        check_stop_on_path (topo(e \<mapsto> rs)) s t e"
    by (simp add: check_stop_on_path_def)
qed

text \<open>
  The theorem at the specification's end-to-end scenario: the line has the one route
  100, 200, 300, 400. From 200 to 300 towards 400 the check holds and a serving route
  exists; towards 250, which is no key, it fails; and putting a route without the
  start 200 in front of the stored one does not change the answer.
\<close>

theorem check_stop_on_path_iff_witness:
  "check_stop_on_path example_table (Some ''200'') (Some ''300'') (Some ''400'') = Inr True
   \<and> (\<exists>routes. example_table (Some ''400'') = Some routes
          \<and> (\<exists>r \<in> set routes. route_serves r (Some ''200'') (Some ''300'') (Some ''400'')))
   \<and> example_table (Some ''250'') = None
   \<and> check_stop_on_path example_table (Some ''200'') (Some ''300'') (Some ''250'') = Inr False
   \<and> Some ''200'' \<notin> set [Some ''300'', Some ''400'']
   \<and> check_stop_on_path
         (example_table(Some ''400'' \<mapsto> [Some ''300'', Some ''400''] # [example_route]))
         (Some ''200'') (Some ''300'') (Some ''400'') = Inr True"
proof -
  have run: "check_stop_on_path example_table (Some ''200'') (Some ''300'') (Some ''400'')
      = Inr True"
    by (simp add: check_stop_on_path_def example_table_def example_route_def)
  have absent: "example_table (Some ''250'') = None"
    by (simp add: example_table_def)
  have lacks: "Some ''200'' \<notin> set [Some ''300'', Some ''400'']"
    by simp
  have same: "example_table(Some ''400'' \<mapsto> [example_route]) = example_table"
    by (simp add: example_table_def)
  note thm1 = check_stop_on_path_iff [of example_table "Some ''200''" "Some ''300''"
      "Some ''400''" "[Some ''300'', Some ''400'']" "[example_route]"]
  note thm2 = check_stop_on_path_iff [of example_table "Some ''200''" "Some ''300''"
      "Some ''250''" "[]" "[]"]
  from thm1 run have ex: "\<exists>routes. example_table (Some ''400'') = Some routes
          \<and> (\<exists>r \<in> set routes. route_serves r (Some ''200'') (Some ''300'') (Some ''400''))"
    by simp
  from thm2 absent have no: "check_stop_on_path example_table (Some ''200'') (Some ''300'')
      (Some ''250'') = Inr False"
    by blast
  from thm1 lacks same run have skip: "check_stop_on_path
         (example_table(Some ''400'' \<mapsto> [Some ''300'', Some ''400''] # [example_route]))
         (Some ''200'') (Some ''300'') (Some ''400'') = Inr True"
    by simp
  from run ex absent no lacks skip show ?thesis by blast
qed

text \<open>
  C4, as stated, at the route 100, 200, 300, 400 stored under its terminus 400 and the
  positions \<open>i = j = 1\<close>: the claim gives true for \<open>i \<le> j\<close>, the code tests
  \<open>idx_start < idx_target\<close> and answers false.
\<close>

theorem check_stop_on_path_order_counterexample:
  "example_table (last example_route) = Some [example_route]
   \<and> (1::nat) \<le> 1 \<and> 1 < length example_route
   \<and> check_stop_on_path example_table (example_route ! 1) (example_route ! 1)
        (last example_route) = Inr False"
  by (simp add: check_stop_on_path_def example_table_def example_route_def)

text \<open>
  C4, amended. Let a route of pairwise distinct stops be stored in a table under its
  last stop, and let \<open>i\<close>, \<open>j\<close> be positions of the route. For \<open>i < j\<close> the
  check from the \<open>i\<close>-th to the \<open>j\<close>-th stop towards the terminus is true. For
  \<open>i = j\<close> it is false whatever else the table holds. For \<open>i > j\<close> it is false
  when the route is the only one stored under that terminus.
\<close>

theorem check_stop_on_path_order:
  assumes "topo (last r) = Some routes" and "r \<in> set routes" and "distinct r"
    and "i < length r" and "j < length r"
  shows "(i < j \<longrightarrow> check_stop_on_path topo (r ! i) (r ! j) (last r) = Inr True)
       \<and> (i = j \<longrightarrow> check_stop_on_path topo (r ! i) (r ! j) (last r) = Inr False)
       \<and> (j < i \<and> routes = [r] \<longrightarrow>
            check_stop_on_path topo (r ! i) (r ! j) (last r) = Inr False)"
proof (intro conjI impI)
  assume "i < j"
  with assms(3-5) have "route_serves r (r ! i) (r ! j) (last r)"
    by (simp add: route_serves_distinct)
  with assms(1,2) show "check_stop_on_path topo (r ! i) (r ! j) (last r) = Inr True"
    by (auto simp: check_stop_on_path_spec)
next
  assume "i = j"
  then show "check_stop_on_path topo (r ! i) (r ! j) (last r) = Inr False"
    by (simp add: check_stop_on_path_spec route_serves_irrefl)
next
  assume a: "j < i \<and> routes = [r]"
  with assms(3-5) have "\<not> route_serves r (r ! i) (r ! j) (last r)"
    by (simp add: route_serves_distinct)
  with a assms(1) show "check_stop_on_path topo (r ! i) (r ! j) (last r) = Inr False"
    by (simp add: check_stop_on_path_spec)
qed

theorem check_stop_on_path_order_witness:
  "example_table (last example_route) = Some [example_route]
   \<and> example_route \<in> set [example_route] \<and> distinct example_route
   \<and> (1::nat) < length example_route \<and> (2::nat) < length example_route
   \<and> check_stop_on_path example_table (example_route ! 1) (example_route ! 2)
        (last example_route) = Inr True
   \<and> check_stop_on_path example_table (example_route ! 2) (example_route ! 2)
        (last example_route) = Inr False
   \<and> check_stop_on_path example_table (example_route ! 2) (example_route ! 1)
        (last example_route) = Inr False"
proof -
  have h1: "example_table (last example_route) = Some [example_route]"
    by (simp add: example_table_def example_route_def)
  have h2: "example_route \<in> set [example_route]" by simp
  have h3: "distinct example_route" by (simp add: example_route_def)
  have l1: "(1::nat) < length example_route" and l2: "(2::nat) < length example_route"
    by (simp_all add: example_route_def)
  from check_stop_on_path_order [of example_table example_route "[example_route]" 1 2, OF h1 h2 h3 l1 l2]
  have up: "check_stop_on_path example_table (example_route ! 1) (example_route ! 2)
        (last example_route) = Inr True"
    by simp
  from check_stop_on_path_order [of example_table example_route "[example_route]" 2 2, OF h1 h2 h3 l2 l2]
  have same: "check_stop_on_path example_table (example_route ! 2) (example_route ! 2)
        (last example_route) = Inr False"
    by simp
  from check_stop_on_path_order [of example_table example_route "[example_route]" 2 1, OF h1 h2 h3 l2 l1]
  have down: "check_stop_on_path example_table (example_route ! 2) (example_route ! 1)
        (last example_route) = Inr False"
    by simp
  from h1 h2 h3 l1 l2 up same down show ?thesis by blast
qed

section \<open>Claims about the rotator\<close>

text \<open>
  C2. In a pool of \<open>N\<close> credentials where the remote call fails with code 429 on
  every credential, one call through \<open>_call_with_retry\<close> makes exactly \<open>N\<close>
  underlying calls, on the clients at \<open>N\<close> pairwise different indices (the rotation
  from the active one), and then raises the \<open>RequestError\<close> with code 429 and the
  message that all keys are rate limited. The active index ends where it started.
\<close>

theorem all_rate_limited_exhausts:
  assumes "pool_ok s" and "always_rate_limited func"
  shows "\<exists>w'. call_with_retry (logged func) s (w, []) =
            (Inl (RequestError 429 ''All API keys are rate limited.''), s,
             (w', map (\<lambda>j. clients s ! j) (rotation_indices s (length (tokens s)))))
          \<and> length (rotation_indices s (length (tokens s))) = length (tokens s)
          \<and> distinct (rotation_indices s (length (tokens s)))"
proof -
  let ?N = "length (tokens s)"
  from assms(1) have same: "s\<lparr>current_token_index := (current_token_index s + ?N) mod ?N\<rparr> = s"
    by (auto simp: pool_ok_def)
  from loop_all_429 [OF assms(2) assms(1), of ?N 0 w "[]"] same
  obtain w' where "call_with_retry_loop (logged func) 0 ?N s (w, []) =
      (Inl (RequestError 429 ''All API keys are rate limited.''), s, (w', rotation_from s ?N))"
    by auto
  then show ?thesis
    by (auto simp: call_with_retry_def rotation_from_def rotation_indices_distinct
        rotation_indices_length)
qed

theorem all_rate_limited_exhausts_witness:
  "pool_ok example_pool \<and> always_rate_limited all_limited
   \<and> (\<exists>w'. call_with_retry (logged all_limited) example_pool (0, []) =
            (Inl (RequestError 429 ''All API keys are rate limited.''), example_pool,
             (w', [''key0'', ''key1''])))
   \<and> rotation_indices example_pool 2 = [0, 1]"
proof -
  have ok: "pool_ok example_pool"
    by (simp add: pool_ok_def example_pool_def init_def)
  have lim: "always_rate_limited all_limited"
    by (simp add: always_rate_limited_def all_limited_def)
  have idx: "rotation_indices example_pool 2 = [0, 1]"
    by (simp add: rotation_indices_def example_pool_def init_def upt_conv_Cons)
  have n: "length (tokens example_pool) = 2"
    by (simp add: example_pool_def init_def)
  have cl: "map (\<lambda>j. clients example_pool ! j) [0, 1] = [''key0'', ''key1'']"
    by (simp add: example_pool_def init_def)
  from all_rate_limited_exhausts [where w = 0, OF ok lim] idx n cl
  have "\<exists>w'. call_with_retry (logged all_limited) example_pool (0, []) =
            (Inl (RequestError 429 ''All API keys are rate limited.''), example_pool,
             (w', [''key0'', ''key1'']))"
    by simp
  with ok lim idx show ?thesis by blast
qed

text \<open>
  C7. In a pool of two credentials with the first one active, when the call on the
  first client fails with code 429 and the call on the second client then returns, one
  call through \<open>_call_with_retry\<close> returns that result after two underlying calls,
  the first client's and then the second's, and leaves the active index at 1.
\<close>

theorem second_credential_succeeds:
  assumes "length (tokens s) = 2" and "clients s = [c0, c1]" and "current_token_index s = 0"
    and "func c0 w = (Inl (RequestError 429 msg), w1)" and "func c1 w1 = (Inr r, w2)"
  shows "call_with_retry (logged func) s (w, []) =
           (Inr r, s\<lparr>current_token_index := 1\<rparr>, (w2, [c0, c1]))"
proof -
  let ?s1 = "s\<lparr>current_token_index := 1\<rparr>"
  have cur0: "current_client s = Inr c0"
    using assms(2,3) by (simp add: current_client_def)
  have rot: "rotate_key s = Inr ?s1"
    using assms(1,3) by (simp add: rotate_key_def)
  have cur1: "current_client ?s1 = Inr c1"
    using assms(2) by (simp add: current_client_def)
  have "call_with_retry_loop (logged func) 0 2 s (w, []) =
          call_with_retry_loop (logged func) (0 + 1) 2 ?s1 (w1, [] @ [c0])"
    using cur0 assms(4) rot
    by (intro loop_rate_limited [where func = func and w = w and log = "[]"]) simp_all
  also have "\<dots> = (Inr r, ?s1, (w2, ([] @ [c0]) @ [c1]))"
    using cur1 assms(5)
    by (intro loop_success [where func = func and w = w1]) simp_all
  finally show ?thesis using assms(1) by (simp add: call_with_retry_def)
qed

theorem second_credential_succeeds_witness:
  "length (tokens example_pool) = 2 \<and> clients example_pool = [''key0'', ''key1'']
   \<and> current_token_index example_pool = 0
   \<and> first_limited ''key0'' 0 = (Inl (RequestError 429 ''Too Many Requests''), 1)
   \<and> first_limited ''key1'' 1 = (Inr ''departures'', 2)
   \<and> call_with_retry (logged first_limited) example_pool (0, []) =
       (Inr ''departures'', example_pool\<lparr>current_token_index := 1\<rparr>, (2, [''key0'', ''key1'']))"
proof -
  have h1: "length (tokens example_pool) = 2"
    and h2: "clients example_pool = [''key0'', ''key1'']"
    and h3: "current_token_index example_pool = 0"
    by (simp_all add: example_pool_def init_def)
  have h4: "first_limited ''key0'' 0 = (Inl (RequestError 429 ''Too Many Requests''), 1)"
    and h5: "first_limited ''key1'' 1 = (Inr ''departures'', 2)"
    by (simp_all add: first_limited_def)
  from second_credential_succeeds [where func = first_limited and w = 0, OF h1 h2 h3 h4 h5]
    h1 h2 h3 h4 h5
  show ?thesis by blast
qed

text \<open>
  C8. When an underlying call of the retry loop fails with anything but a
  \<open>RequestError\<close> of code 429, the loop raises that error at once: the rotator's
  state after the call is the state before it, and the failed call is the last
  underlying call made. For a call through \<open>_call_with_retry\<close> whose first
  underlying call fails so, it is the only one.
\<close>

theorem other_error_propagates:
  assumes "attempts < max_attempts" and "current_client s = Inr c"
    and "func c w = (Inl e, w')" and "\<forall>msg. e \<noteq> RequestError 429 msg"
  shows "call_with_retry_loop (logged func) attempts max_attempts s (w, log) =
           (Inl e, s, (w', log @ [c]))
       \<and> (tokens s \<noteq> [] \<longrightarrow>
            call_with_retry (logged func) s (w, []) = (Inl e, s, (w', [c])))"
proof (intro conjI impI)
  show "call_with_retry_loop (logged func) attempts max_attempts s (w, log) =
           (Inl e, s, (w', log @ [c]))"
    using assms by (rule loop_other_error)
next
  assume "tokens s \<noteq> []"
  then have "0 < length (tokens s)" by simp
  from loop_other_error [where func = func and w = w and log = "[]", OF this assms(2-4)]
  show "call_with_retry (logged func) s (w, []) = (Inl e, s, (w', [c]))"
    by (simp add: call_with_retry_def)
qed

theorem other_error_propagates_witness:
  "(0::nat) < 2 \<and> current_client example_pool = Inr ''key0''
   \<and> server_error ''key0'' 0 = (Inl (RequestError 500 ''Internal Server Error''), 1)
   \<and> (\<forall>msg. RequestError 500 ''Internal Server Error'' \<noteq> (RequestError 429 msg :: unit exn))
   \<and> tokens example_pool \<noteq> []
   \<and> call_with_retry (logged server_error) example_pool (0, []) =
       (Inl (RequestError 500 ''Internal Server Error''), example_pool, (1, [''key0'']))"
proof -
  have h1: "(0::nat) < 2" by simp
  have h2: "current_client example_pool = Inr ''key0''"
    by (simp add: current_client_def example_pool_def init_def)
  have h3: "server_error ''key0'' 0 = (Inl (RequestError 500 ''Internal Server Error''), 1)"
    by (simp add: server_error_def)
  have h4: "\<forall>msg. RequestError 500 ''Internal Server Error'' \<noteq> (RequestError 429 msg :: unit exn)"
    by simp
  have h5: "tokens example_pool \<noteq> []"
    by (simp add: example_pool_def init_def)
  from other_error_propagates [where func = server_error and w = 0 and log = "[]",
      OF h1 h2 h3 h4] h5
  have "call_with_retry (logged server_error) example_pool (0, []) =
       (Inl (RequestError 500 ''Internal Server Error''), example_pool, (1, [''key0'']))"
    by blast
  with h1 h2 h3 h4 h5 show ?thesis by blast
qed

text \<open>
  C10. Let the active client answer a request with a \<open>RequestError\<close> of code 429.
  For \<open>get_lines\<close> and \<open>get_stops\<close> the wrapper raises that error with the
  state unchanged after this one underlying call. For \<open>get_traffic\<close>,
  \<open>get_destinations\<close>, \<open>get_directions\<close>, \<open>get_infos\<close> and
  \<open>get_line_reports\<close>, in a pool of at least two credentials, the wrapper goes on
  to call the client at the next index.
\<close>

theorem get_lines_get_stops_unretried:
  assumes "current_client s = Inr c" and "api c req w = (Inl (RequestError 429 msg), w')"
  shows "(unretried req \<longrightarrow>
            wrapper_call (logged_api api) s req (w, []) =
              (Inl (RequestError 429 msg), s, (w', [c])))
       \<and> (\<not> unretried req \<and> pool_ok s \<and> 2 \<le> length (tokens s) \<longrightarrow>
            (\<exists>res s' w'' rest. wrapper_call (logged_api api) s req (w, []) =
              (res, s', (w'',
                 c # clients s ! ((current_token_index s + 1) mod length (tokens s)) # rest))))"
proof (intro conjI impI)
  assume "unretried req"
  then consider transport where "req = GetLines transport" | lid where "req = GetStops lid"
    by (cases req) auto
  then show "wrapper_call (logged_api api) s req (w, []) =
              (Inl (RequestError 429 msg), s, (w', [c]))"
    using assms
    by cases (simp_all add: wrapper_call_def get_lines_def get_stops_def on_current_client_def
        logged_api_def logged_def)
next
  assume a: "\<not> unretried req \<and> pool_ok s \<and> 2 \<le> length (tokens s)"
  let ?N = "length (tokens s)"
  let ?s1 = "s\<lparr>current_token_index := (current_token_index s + 1) mod ?N\<rparr>"
  let ?func = "\<lambda>client. api client req"
  from a have ne: "tokens s \<noteq> []" by (cases "tokens s") auto
  from a have ok: "pool_ok s" by simp
  have lg: "logged_api api = (\<lambda>client req. logged (\<lambda>c. api c req) client)"
    by (rule ext)+ (simp add: logged_api_def)
  from a have call: "wrapper_call (logged_api api) s req (w, []) =
      call_with_retry_loop (logged ?func) 0 ?N s (w, [])"
    by (cases req)
      (simp_all add: wrapper_call_def get_traffic_def get_destinations_def get_directions_def
        get_infos_def get_line_reports_def call_with_retry_def lg)
  have rot: "rotate_key s = Inr ?s1" and ok1: "pool_ok ?s1"
    using pool_ok_rotate [OF ok ne] by simp_all
  from ok1 ne have cur1: "current_client ?s1 = Inr (clients s ! ((current_token_index s + 1) mod ?N))"
    using pool_ok_current [of ?s1] by simp
  from a have "2 \<le> ?N" by simp
  then have lt0: "0 < ?N" and lt1: "0 + 1 < ?N" by linarith+
  have step: "call_with_retry_loop (logged ?func) 0 ?N s (w, []) =
      call_with_retry_loop (logged ?func) (0 + 1) ?N ?s1 (w', [] @ [c])"
    using lt0 assms(1) assms(2) rot
    by (rule loop_rate_limited [where func = ?func and w = w and log = "[]"])
  obtain res s' w'' log' where run: "call_with_retry_loop (logged ?func) (0 + 1) ?N ?s1
      (w', [] @ [c]) = (res, s', (w'', log'))"
    by (metis prod_cases3)
  from loop_first_call [OF lt1 cur1 run] obtain rest where
    "log' = [c] @ clients s ! ((current_token_index s + 1) mod ?N) # rest"
    by auto
  with call step run show "\<exists>res s' w'' rest. wrapper_call (logged_api api) s req (w, []) =
      (res, s', (w'', c # clients s ! ((current_token_index s + 1) mod ?N) # rest))"
    by auto
qed

theorem get_lines_get_stops_unretried_witness:
  "current_client example_pool = Inr ''key0''
   \<and> example_api ''key0'' (GetLines None) 0 = (Inl (RequestError 429 ''Too Many Requests''), 1)
   \<and> unretried (GetLines None :: unit request)
   \<and> get_lines (logged_api example_api) example_pool None (0, []) =
        (Inl (RequestError 429 ''Too Many Requests''), example_pool, (1, [''key0'']))
   \<and> example_api ''key0'' (GetInfos ''C01742'') 0 =
        (Inl (RequestError 429 ''Too Many Requests''), 1)
   \<and> \<not> unretried (GetInfos ''C01742'' :: unit request)
   \<and> pool_ok example_pool \<and> 2 \<le> length (tokens example_pool)
   \<and> (\<exists>res s' w'' rest. get_infos (logged_api example_api) example_pool ''C01742'' (0, []) =
        (res, s', (w'', ''key0'' # ''key1'' # rest)))"
proof -
  have h1: "current_client example_pool = Inr ''key0''"
    by (simp add: current_client_def example_pool_def init_def)
  have h2: "example_api ''key0'' (GetLines None) 0 =
      (Inl (RequestError 429 ''Too Many Requests''), 1)"
    and h3: "example_api ''key0'' (GetInfos ''C01742'') 0 =
      (Inl (RequestError 429 ''Too Many Requests''), 1)"
    by (simp_all add: example_api_def first_limited_def)
  have u1: "unretried (GetLines None :: unit request)"
    and u2: "\<not> unretried (GetInfos ''C01742'' :: unit request)"
    by simp_all
  have ok: "pool_ok example_pool" and n: "2 \<le> length (tokens example_pool)"
    by (simp_all add: pool_ok_def example_pool_def init_def)
  have nxt: "clients example_pool !
      ((current_token_index example_pool + 1) mod length (tokens example_pool)) = ''key1''"
    by (simp add: example_pool_def init_def)
  from get_lines_get_stops_unretried [where api = example_api and w = 0, OF h1 h2] u1
  have a: "get_lines (logged_api example_api) example_pool None (0, []) =
        (Inl (RequestError 429 ''Too Many Requests''), example_pool, (1, [''key0'']))"
    by (simp add: wrapper_call_def)
  from get_lines_get_stops_unretried [where api = example_api and w = 0, OF h1 h3] u2 ok n nxt
  have b: "\<exists>res s' w'' rest. get_infos (logged_api example_api) example_pool ''C01742'' (0, []) =
        (res, s', (w'', ''key0'' # ''key1'' # rest))"
    by (simp add: wrapper_call_def)
  from h1 h2 u1 a h3 u2 ok n b show ?thesis by blast
qed

section \<open>Claims about normalisation\<close>

text \<open>
  C3, as stated, at inputs that lack segments. The coordinator's normalisation
  returns the identifier 43114, which has no colon at all, unchanged instead of null;
  both normalisations turn \<open>Q:43114:\<close>, two segments short, into 43114; so the
  normalised value of the malformed 200 equals the real stop 200 and the path check
  with it succeeds. And the resolver's normalisation gives null for the composite
  identifiers \<open>STIF:StopPoint:Q:IDFM:\<close>, whose code is IDFM, and
  \<open>IDFM:IDFM:Q:43114:\<close>, in which \<open>IDFM:\<close> occurs twice.
\<close>

theorem extract_stif_id_counterexample:
  "coordinator_extract_stif_id (Some ''43114'') = Some ''43114''
   \<and> coordinator_extract_stif_id (Some ''Q:43114:'') = Some ''43114''
   \<and> topology_extract_stif_id (JStr ''Q:43114:'') = Inr (Some ''43114'')
   \<and> check_stop_on_path example_table (coordinator_extract_stif_id (Some ''200''))
        (Some ''300'') (Some ''400'') = Inr True
   \<and> topology_extract_stif_id (JStr (composite ''STIF'' ''StopPoint'' ''Q'' ''IDFM'')) = Inr None
   \<and> topology_extract_stif_id (JStr (composite ''IDFM'' ''IDFM'' ''Q'' ''43114'')) = Inr None"
  by (simp add: coordinator_extract_stif_id_def second_to_last_def py_split_def
      list_getitem_def stif_part_def composite_def check_stop_on_path_def example_table_def
      example_route_def)

text \<open>
  C3, amended. Let \<open>CODE\<close> contain no colon. The coordinator's normalisation of
  \<open>A:B:C:CODE:\<close> is \<open>CODE\<close>. The resolver's is \<open>CODE\<close> when the identifier
  does not contain \<open>IDFM:\<close>, and when \<open>IDFM:\<close> occurs in it once and before
  \<open>CODE\<close>: the identifier, with or without an authority prefix, reads
  \<open>P IDFM: Q CODE:\<close> with \<open>Q\<close> empty or ending with a colon and no other
  \<open>IDFM:\<close>.

  For any input, the coordinator's normalisation gives null for an absent and for an
  empty identifier, returns a non-empty identifier without colon unchanged, and gives
  the second-to-last colon-delimited segment of an identifier with a colon, which
  always exists. The resolver's normalisation of a string looks at the piece after the
  authority prefix, which always exists: the string itself when it does not contain
  \<open>IDFM:\<close>, otherwise what stands between the first \<open>IDFM:\<close> and the next one or
  the end. It gives null when that piece has no colon, and the second-to-last
  colon-delimited segment of the piece when it has one.

  With null as start, target or terminus, the path check against a table whose routes
  hold no null is false.
\<close>

theorem extract_stif_id_normalises:
  "(CHR '':'' \<notin> set code \<longrightarrow>
       coordinator_extract_stif_id (Some (composite a b c code)) = Some code
     \<and> (\<not> contains ''IDFM:'' (composite a b c code) \<longrightarrow>
          topology_extract_stif_id (JStr (composite a b c code)) = Inr (Some code))
     \<and> (\<not> contains ''IDFM:'' (p @ ''IDFM'') \<and> \<not> contains ''IDFM:'' (q @ code @ '':'')
          \<and> (q = [] \<or> last q = CHR '':'') \<longrightarrow>
          topology_extract_stif_id (JStr (p @ ''IDFM:'' @ q @ code @ '':'')) = Inr (Some code)))
   \<and> coordinator_extract_stif_id None = None
   \<and> coordinator_extract_stif_id (Some []) = None
   \<and> (CHR '':'' \<notin> set s \<and> s \<noteq> [] \<longrightarrow> coordinator_extract_stif_id (Some s) = Some s)
   \<and> (CHR '':'' \<in> set s \<longrightarrow> (\<exists>seg. penultimate s seg))
   \<and> (penultimate s seg \<longrightarrow> coordinator_extract_stif_id (Some s) = Some seg)
   \<and> (CHR '':'' \<in> set s \<longrightarrow> (\<exists>seg. coordinator_extract_stif_id (Some s) = Some seg))
   \<and> (\<exists>part. after_authority s part)
   \<and> (after_authority s part \<and> CHR '':'' \<notin> set part \<longrightarrow>
        topology_extract_stif_id (JStr s) = Inr None)
   \<and> (after_authority s part \<and> penultimate part seg \<longrightarrow>
        topology_extract_stif_id (JStr s) = Inr (Some seg))
   \<and> (CHR '':'' \<notin> set s \<longrightarrow> topology_extract_stif_id (JStr s) = Inr None)
   \<and> (real_routes topo \<and> (start = None \<or> target = None \<or> terminus = None) \<longrightarrow>
        check_stop_on_path topo start target terminus = Inr False)"
proof -
  have coord: "coordinator_extract_stif_id (Some u) = Some v" if "penultimate u v" for u v
  proof -
    from that have "second_to_last u = Inr v" by (rule second_to_last_penultimate)
    moreover from that have "u \<noteq> []" by (auto dest: penultimate_colon)
    ultimately show ?thesis by (simp add: coordinator_extract_stif_id_def)
  qed
  have plain: "after_authority u u" if "\<not> contains ''IDFM:'' u" for u
    using that by (simp add: after_authority_def)
  have c1: "coordinator_extract_stif_id (Some (composite a b c code)) = Some code"
    if "CHR '':'' \<notin> set code"
    using that by (intro coord penultimate_composite)
  have c2: "topology_extract_stif_id (JStr (composite a b c code)) = Inr (Some code)"
    if "CHR '':'' \<notin> set code" and "\<not> contains ''IDFM:'' (composite a b c code)"
    using that by (intro topology_extract_penultimate [OF plain] penultimate_composite)
  have c3: "topology_extract_stif_id (JStr (p @ ''IDFM:'' @ q @ code @ '':'')) = Inr (Some code)"
    if code: "CHR '':'' \<notin> set code"
      and h: "\<not> contains ''IDFM:'' (p @ ''IDFM'') \<and> \<not> contains ''IDFM:'' (q @ code @ '':'')
          \<and> (q = [] \<or> last q = CHR '':'')"
  proof -
    from h have "after_authority (p @ ''IDFM:'' @ q @ code @ '':'') (q @ code @ '':'')"
      unfolding after_authority_def by blast
    moreover from code h have "penultimate (q @ code @ '':'') code"
      unfolding penultimate_def by (intro exI [of _ q] exI [of _ "[]"]) simp
    ultimately show ?thesis by (rule topology_extract_penultimate)
  qed
  have c4: "coordinator_extract_stif_id None = None"
    and c5: "coordinator_extract_stif_id (Some []) = None"
    by (simp_all add: coordinator_extract_stif_id_def)
  have c6: "coordinator_extract_stif_id (Some s) = Some s" if "CHR '':'' \<notin> set s \<and> s \<noteq> []"
    using that by (simp add: coordinator_extract_stif_id_def second_to_last_no_colon)
  have c7: "\<exists>seg. penultimate s seg" if "CHR '':'' \<in> set s"
    using that by (rule penultimate_exists)
  have c8: "coordinator_extract_stif_id (Some s) = Some seg" if "penultimate s seg"
    using that by (rule coord)
  have c9: "\<exists>seg. coordinator_extract_stif_id (Some s) = Some seg" if "CHR '':'' \<in> set s"
    using c7 [OF that] coord by blast
  have c10: "\<exists>part. after_authority s part"
    by (rule after_authority_exists)
  have c11: "topology_extract_stif_id (JStr s) = Inr None"
    if "after_authority s part \<and> CHR '':'' \<notin> set part"
    using that topology_extract_no_colon by blast
  have c12: "topology_extract_stif_id (JStr s) = Inr (Some seg)"
    if "after_authority s part \<and> penultimate part seg"
    using that topology_extract_penultimate by blast
  have c13: "topology_extract_stif_id (JStr s) = Inr None" if "CHR '':'' \<notin> set s"
    using that by (intro topology_extract_no_colon [OF plain] no_colon_no_IDFM)
  have c14: "check_stop_on_path topo start target terminus = Inr False"
    if h: "real_routes topo \<and> (start = None \<or> target = None \<or> terminus = None)"
  proof (cases "topo terminus")
    case None
    then show ?thesis by (simp add: check_stop_on_path_def)
  next
    case (Some routes)
    with h have "\<forall>r \<in> set routes. None \<notin> set r" by (auto simp: real_routes_def)
    moreover from h have "None = start \<or> None = target \<or> None = terminus" by auto
    ultimately have "check_routes routes start target terminus = Inr False"
      by (rule check_routes_absent)
    with Some show ?thesis by (simp add: check_stop_on_path_def)
  qed
  from c1 c2 c3 c4 c5 c6 c7 c8 c9 c10 c11 c12 c13 c14 show ?thesis by blast
qed

text \<open>
  The theorem at \<open>STIF:StopPoint:Q:43114:\<close>, alone, behind the authority prefix
  \<open>stop_point:IDFM:\<close> and with \<open>IDFM\<close> as its own authority; at
  \<open>stop_point:IDFM:463158\<close>, whose piece after the prefix has no colon; at
  \<open>Q:43114:\<close> and at 43114; and at the path check from null.
\<close>

theorem extract_stif_id_normalises_witness:
  "CHR '':'' \<notin> set ''43114''
   \<and> coordinator_extract_stif_id (Some ''STIF:StopPoint:Q:43114:'') = Some ''43114''
   \<and> \<not> contains ''IDFM:'' ''STIF:StopPoint:Q:43114:''
   \<and> topology_extract_stif_id (JStr ''STIF:StopPoint:Q:43114:'') = Inr (Some ''43114'')
   \<and> topology_extract_stif_id (JStr ''stop_point:IDFM:STIF:StopPoint:Q:43114:'')
        = Inr (Some ''43114'')
   \<and> topology_extract_stif_id (JStr ''IDFM:StopPoint:Q:43114:'') = Inr (Some ''43114'')
   \<and> after_authority ''stop_point:IDFM:463158'' ''463158'' \<and> CHR '':'' \<notin> set ''463158''
   \<and> topology_extract_stif_id (JStr ''stop_point:IDFM:463158'') = Inr None
   \<and> penultimate ''Q:43114:'' ''43114'' \<and> after_authority ''Q:43114:'' ''Q:43114:''
   \<and> coordinator_extract_stif_id (Some ''Q:43114:'') = Some ''43114''
   \<and> topology_extract_stif_id (JStr ''Q:43114:'') = Inr (Some ''43114'')
   \<and> ''43114'' \<noteq> []
   \<and> coordinator_extract_stif_id (Some ''43114'') = Some ''43114''
   \<and> topology_extract_stif_id (JStr ''43114'') = Inr None
   \<and> real_routes example_table
   \<and> check_stop_on_path example_table None (Some ''300'') (Some ''400'') = Inr False"
proof -
  have h: "CHR '':'' \<notin> set ''43114''" by simp
  have cmp: "composite ''STIF'' ''StopPoint'' ''Q'' ''43114'' = ''STIF:StopPoint:Q:43114:''"
    by (simp add: composite_def)
  have n1: "\<not> contains ''IDFM:'' ''STIF:StopPoint:Q:43114:''" by simp
  have n2: "\<not> contains ''IDFM:'' (''stop_point:'' @ ''IDFM'')
      \<and> \<not> contains ''IDFM:'' (''STIF:StopPoint:Q:'' @ ''43114'' @ '':'')
      \<and> (''STIF:StopPoint:Q:'' = [] \<or> last ''STIF:StopPoint:Q:'' = CHR '':'')" by simp
  have n3: "\<not> contains ''IDFM:'' ([] @ ''IDFM'')
      \<and> \<not> contains ''IDFM:'' (''StopPoint:Q:'' @ ''43114'' @ '':'')
      \<and> (''StopPoint:Q:'' = [] \<or> last ''StopPoint:Q:'' = CHR '':'')" by simp
  have s1: "''stop_point:'' @ ''IDFM:'' @ ''STIF:StopPoint:Q:'' @ ''43114'' @ '':''
      = ''stop_point:IDFM:STIF:StopPoint:Q:43114:''" by simp
  have s2: "[] @ ''IDFM:'' @ ''StopPoint:Q:'' @ ''43114'' @ '':'' = ''IDFM:StopPoint:Q:43114:''"
    by simp
  have aa: "after_authority ''stop_point:IDFM:463158'' ''463158''"
    unfolding after_authority_def
    by (intro disjI2 exI [of _ "''stop_point:''"]) simp
  have nc: "CHR '':'' \<notin> set ''463158''" by simp
  have pen: "penultimate ''Q:43114:'' ''43114''"
    unfolding penultimate_def by (intro exI [of _ "''Q:''"] exI [of _ "[]"]) simp
  have ab: "after_authority ''Q:43114:'' ''Q:43114:''"
    by (simp add: after_authority_def)
  have ne: "''43114'' \<noteq> []" by simp
  have rr: "real_routes example_table"
    by (simp add: real_routes_def example_table_def example_route_def)
  note t1 = extract_stif_id_normalises [where code = "''43114''" and a = "''STIF''"
      and b = "''StopPoint''" and c = "''Q''" and p = "''stop_point:''"
      and q = "''STIF:StopPoint:Q:''" and s = "''43114''" and topo = example_table
      and start = None and target = "Some ''300''" and terminus = "Some ''400''"]
  note t2 = extract_stif_id_normalises [where code = "''43114''" and p = "[]"
      and q = "''StopPoint:Q:''" and s = "''stop_point:IDFM:463158''" and part = "''463158''"]
  note t3 = extract_stif_id_normalises [where s = "''Q:43114:''" and part = "''Q:43114:''"
      and seg = "''43114''"]
  from t1 h cmp have a: "coordinator_extract_stif_id (Some ''STIF:StopPoint:Q:43114:'')
      = Some ''43114''" by simp
  from t1 h cmp n1 have b: "topology_extract_stif_id (JStr ''STIF:StopPoint:Q:43114:'')
      = Inr (Some ''43114'')" by simp
  from t1 h n2 have "topology_extract_stif_id
      (JStr (''stop_point:'' @ ''IDFM:'' @ ''STIF:StopPoint:Q:'' @ ''43114'' @ '':''))
      = Inr (Some ''43114'')" by blast
  with s1 have c: "topology_extract_stif_id (JStr ''stop_point:IDFM:STIF:StopPoint:Q:43114:'')
      = Inr (Some ''43114'')" by simp
  from t2 h n3 have "topology_extract_stif_id
      (JStr ([] @ ''IDFM:'' @ ''StopPoint:Q:'' @ ''43114'' @ '':'')) = Inr (Some ''43114'')"
    by blast
  with s2 have d: "topology_extract_stif_id (JStr ''IDFM:StopPoint:Q:43114:'')
      = Inr (Some ''43114'')" by simp
  from t2 aa nc have e: "topology_extract_stif_id (JStr ''stop_point:IDFM:463158'') = Inr None"
    by blast
  from t3 pen have f: "coordinator_extract_stif_id (Some ''Q:43114:'') = Some ''43114''"
    by blast
  from t3 ab pen have g: "topology_extract_stif_id (JStr ''Q:43114:'') = Inr (Some ''43114'')"
    by blast
  from t1 h ne have i: "coordinator_extract_stif_id (Some ''43114'') = Some ''43114''"
    by blast
  from t1 h have j: "topology_extract_stif_id (JStr ''43114'') = Inr None"
    by blast
  from t1 rr have k: "check_stop_on_path example_table None (Some ''300'') (Some ''400'')
      = Inr False" by blast
  from h a n1 b c d aa nc e pen ab f g ne i j rr k show ?thesis by blast
qed

section \<open>Claims about the topology cache\<close>

text \<open>
  C5. When the line is not cached and the routes request fails, by a transport error
  or by a response whose status is not 200, \<open>get_ordered_stops\<close> returns the empty
  table after that one request and leaves the resolver, and so the cache, as it was;
  the next call for the same line then requests the routes URL again.
\<close>

theorem failed_fetch_not_cached:
  assumes "topology_cache self l = None"
    and "fst (http (LineRoutes l) w) = TransportError
       \<or> (\<exists>status body. fst (http (LineRoutes l) w) = Response status body \<and> status \<noteq> 200)"
  shows "\<exists>w1. get_ordered_stops (logged_http http) self l (w, log) =
             (Inr Map.empty, self, (w1, log @ [LineRoutes l]))
           \<and> (\<exists>res self2 w2 rest.
                 get_ordered_stops (logged_http http) self l (w1, log @ [LineRoutes l]) =
                   (res, self2, (w2, log @ [LineRoutes l] @ LineRoutes l # rest)))"
proof -
  let ?H = "logged_http http"
  let ?w1 = "snd (navitia_request http (LineRoutes l) w)"
  from assms(2) have "fst (navitia_request http (LineRoutes l) w) = JNull"
    by (rule navitia_request_failed)
  then have "fst (navitia_request ?H (LineRoutes l) (w, log)) = JNull"
    and "snd (navitia_request ?H (LineRoutes l) (w, log)) = (?w1, log @ [LineRoutes l])"
    by (simp_all add: navitia_request_logged)
  with get_ordered_stops_failed [OF assms(1), of ?H "(w, log)"]
  have first: "get_ordered_stops ?H self l (w, log) =
      (Inr Map.empty, self, (?w1, log @ [LineRoutes l]))"
    by simp
  obtain res self2 w2 log2 where second:
    "get_ordered_stops ?H self l (?w1, log @ [LineRoutes l]) = (res, self2, (w2, log2))"
    by (metis prod_cases3)
  from get_ordered_stops_uncached_log [OF assms(1) second]
  obtain rest where "log2 = (log @ [LineRoutes l]) @ LineRoutes l # rest" by blast
  with first second show ?thesis by auto
qed

theorem failed_fetch_not_cached_witness:
  "topology_cache empty_resolver ''C01742'' = None
   \<and> fst (failing_http (LineRoutes ''C01742'') 0) = Response 503 None \<and> (503::nat) \<noteq> 200
   \<and> (\<exists>w1. get_ordered_stops (logged_http failing_http) empty_resolver ''C01742'' (0, []) =
             (Inr Map.empty, empty_resolver, (w1, [LineRoutes ''C01742'']))
           \<and> (\<exists>res self2 w2 rest.
                 get_ordered_stops (logged_http failing_http) empty_resolver ''C01742''
                     (w1, [LineRoutes ''C01742'']) =
                   (res, self2, (w2, LineRoutes ''C01742'' # LineRoutes ''C01742'' # rest))))"
proof -
  have h1: "topology_cache empty_resolver ''C01742'' = None"
    by (simp add: empty_resolver_def)
  have h2: "fst (failing_http (LineRoutes ''C01742'') 0) = Response 503 None"
    by (simp add: failing_http_def)
  have h3: "(503::nat) \<noteq> 200" by simp
  from h2 h3 have h: "fst (failing_http (LineRoutes ''C01742'') 0) = TransportError
       \<or> (\<exists>status body. fst (failing_http (LineRoutes ''C01742'') 0) = Response status body
            \<and> status \<noteq> 200)"
    by blast
  from failed_fetch_not_cached [where http = failing_http and w = 0 and log = "[]", OF h1 h]
    h1 h2 h3
  show ?thesis by simp
qed

text \<open>
  C6. Once a table is stored in the cache for a line, every call of
  \<open>get_ordered_stops\<close> for that line returns this table without a request and
  without changing the resolver, and no sequence of \<open>get_ordered_stops\<close> calls, for
  this or any other line, changes the entry. The path check is a function of the table
  and the identifiers alone, so equal queries on the returned table have equal
  answers.
\<close>

theorem cached_table_stable:
  assumes "topology_cache self l = Some table" and "run_calls http self ls w = (self', w')"
  shows "get_ordered_stops http self l w = (Inr table, self, w)
       \<and> topology_cache self' l = Some table
       \<and> get_ordered_stops http self' l w' = (Inr table, self', w')
       \<and> (\<exists>t1 t2. fst (get_ordered_stops http self l w) = Inr t1
             \<and> fst (get_ordered_stops http self' l w') = Inr t2
             \<and> check_stop_on_path t1 s_id target_id terminus_id =
                 check_stop_on_path t2 s_id target_id terminus_id)"
proof -
  have a: "get_ordered_stops http self l w = (Inr table, self, w)"
    using assms(1) by (rule get_ordered_stops_cached)
  have b: "topology_cache self' l = Some table"
    using assms by (rule run_calls_keeps)
  then have c: "get_ordered_stops http self' l w' = (Inr table, self', w')"
    by (rule get_ordered_stops_cached)
  from a b c show ?thesis by simp
qed

theorem cached_table_stable_witness:
  "topology_cache example_resolver ''C01742'' = Some example_table
   \<and> (\<exists>self' w'. run_calls example_http example_resolver [''C00001'', ''C01742''] 0 = (self', w')
        \<and> topology_cache self' ''C00001'' \<noteq> None
        \<and> topology_cache self' ''C01742'' = Some example_table
        \<and> get_ordered_stops example_http self' ''C01742'' w' = (Inr example_table, self', w'))"
proof -
  have h1: "topology_cache example_resolver ''C01742'' = Some example_table"
    by (simp add: example_resolver_def)
  obtain self' w' where h2:
    "run_calls example_http example_resolver [''C00001'', ''C01742''] 0 = (self', w')"
    by (metis prod.collapse)
  have "fst (run_calls example_http example_resolver [''C00001'', ''C01742''] 0)
      = \<lparr>topology_cache = [''C01742'' \<mapsto> example_table, ''C00001'' \<mapsto> example_table]\<rparr>"
    by (simp add: example_resolver_def get_ordered_stops_def navitia_request_def
        example_http_def stif_part_def second_to_last_def py_split_def list_getitem_def
        add_route_def example_table_def example_route_def)
  with h2 have other: "topology_cache self' ''C00001'' \<noteq> None" by simp
  from cached_table_stable [where http = example_http, OF h1 h2] h1 h2 other
  show ?thesis by blast
qed

section \<open>Claims about the refresh\<close>

text \<open>
  C9. Whenever a refresh produces data, the client returned a list of departures;
  when topology filtering applies, the table was fetched and the departures that go
  on are the served ones, in their order, otherwise all of them go on; and the
  departure list of the data is made from those by dropping every departure without a
  schedule or with a schedule not after the instant read from the clock after the
  filtering, and sorting the rest by schedule. So it holds exactly the upcoming ones
  among them, as often as they occur, in ascending order of schedule.
\<close>

theorem refresh_filters_then_sorts:
  assumes "async_update_data env self w = (Inr (Some data), self', w')"
  shows "\<exists>tr w1 tr' w2.
           api_get_traffic env (stop_area_id self) (req_destination self) (req_direction self)
             (line_id self) w = (Inr tr, w1)
         \<and> (if use_topology self \<and> ident_truthy (destination_simple self)
            then \<exists>topo_data. get_ordered_stops (http_get env) (topology self) (line_id self) w1
                     = (Inr topo_data, topology self', w2)
                   \<and> tr' = filter (served topo_data self) tr
            else tr' = tr \<and> w2 = w1)
         \<and> DATA_TRAFFIC data =
             sort_key (\<lambda>x. the (schedule x)) (filter (upcoming (utcnow env w2)) tr')
         \<and> mset (DATA_TRAFFIC data) = filter_mset (upcoming (utcnow env w2)) (mset tr')
         \<and> sorted (map (\<lambda>x. the (schedule x)) (DATA_TRAFFIC data))"
proof -
  let ?get = "api_get_traffic env (stop_area_id self) (req_destination self) (req_direction self)
             (line_id self) w"
  from assms have due: "update_due (transport_type self) (now env w)"
    by (auto simp: async_update_data_def split: if_splits)
  from assms due obtain tr w1 where tr: "?get = (Inr tr, w1)"
    by (cases ?get) (auto simp: async_update_data_def split: sum.splits)
  from assms due tr obtain tr' topology' w2 where
    tf: "topology_filtering env self tr w1 = (Inr tr', topology', w2)"
    by (cases "topology_filtering env self tr w1")
      (auto simp: async_update_data_def split: sum.splits)
  from assms due tr tf have data: "DATA_TRAFFIC data = sorted_tr (utcnow env w2) tr'"
    and self': "self' = self\<lparr>topology := topology'\<rparr>"
    by (auto simp: async_update_data_def split: sum.splits prod.splits)
  have filt: "if use_topology self \<and> ident_truthy (destination_simple self)
            then \<exists>topo_data. get_ordered_stops (http_get env) (topology self) (line_id self) w1
                     = (Inr topo_data, topology self', w2)
                   \<and> tr' = filter (served topo_data self) tr
            else tr' = tr \<and> w2 = w1"
    using tf self'
    by (auto simp: topology_filtering_def filter_trains_served split: sum.splits prod.splits
        if_splits)
  from tr filt data show ?thesis
    by (intro exI [of _ tr] exI [of _ w1] exI [of _ tr'] exI [of _ w2])
      (simp add: sorted_tr_upcoming [symmetric] sorted_tr_mset sorted_tr_sorted)
qed

text \<open>
  The theorem at the example refresh: of the five departures fetched at the stop 200,
  the one towards 250 is not served, one has no schedule and one is due at 50, before
  the clock's 100; the two left come out in the order 150, 200.
\<close>

theorem refresh_filters_then_sorts_witness:
  "\<exists>data self' w'.
     async_update_data example_environment example_coordinator 0 = (Inr (Some data), self', w')
   \<and> DATA_TRAFFIC data =
       [departure (Some 150) ''STIF:StopPoint:Q:400:'', departure (Some 200) ''STIF:StopPoint:Q:400:'']
   \<and> sorted (map (\<lambda>x. the (schedule x)) (DATA_TRAFFIC data))
   \<and> (\<exists>tr'. mset (DATA_TRAFFIC data) = filter_mset (upcoming 100) (mset tr'))"
proof -
  let ?data = "\<lparr>DATA_TRAFFIC =
       [departure (Some 150) ''STIF:StopPoint:Q:400:'', departure (Some 200) ''STIF:StopPoint:Q:400:''],
       DATA_INFO = ([] :: string list)\<rparr>"
  let ?self' = "example_coordinator
      \<lparr>topology := \<lparr>topology_cache = [''C01742'' \<mapsto> example_table]\<rparr>\<rparr>"
  have run: "async_update_data example_environment example_coordinator 0 =
      (Inr (Some ?data), ?self', 4)"
    by (simp add: async_update_data_def example_environment_def example_coordinator_def
      coordinator_init_def update_due_def use_topology_def req_destination_def req_direction_def
      ident_truthy_def topology_filtering_def get_ordered_stops_def navitia_request_def
      example_http_def stif_part_def second_to_last_def py_split_def list_getitem_def
      add_route_def coordinator_extract_stif_id_def check_stop_on_path_def sorted_tr_def
      example_departures_def departure_def example_table_def example_route_def Let_def)
  have clock: "\<And>w. utcnow example_environment w = 100"
    by (simp add: example_environment_def)
  from refresh_filters_then_sorts [OF run] clock
  have "sorted (map (\<lambda>x. the (schedule x)) (DATA_TRAFFIC ?data))
      \<and> (\<exists>tr'. mset (DATA_TRAFFIC ?data) = filter_mset (upcoming 100) (mset tr'))"
    by metis
  with run show ?thesis by (intro exI [of _ ?data] exI [of _ ?self'] exI [of _ 4]) simp
qed

end
